theory Spec2Isabelle
  imports Main "HOL-Library.Word"
begin

unbundle bit_operations_syntax

section \<open>Data mapping layer\<close>

text \<open>
  The external schema payloads of \<^verbatim>\<open>src/ui/lib/identity/index.ts\<close> and the internal
  credential shapes of \<^verbatim>\<open>src/ui/lib/store.ts\<close>. The mapping functions only copy
  values, so the records are polymorphic in the representation of a JavaScript string
  (\<open>'s\<close>) and of a JavaScript number (\<open>'n\<close>).
\<close>

record 's BankData =
  BankName :: 's
  AccountType :: 's
  AccountNumber :: 's
  AccountIBAN :: 's

record 's BankInfo =
  accountType :: 's
  bankName :: 's
  accountNumber :: 's

record ('s, 'n) CommitmentData =
  CommitmentId :: 's
  CommitmentTitle :: 's
  CommitmentPercentage :: 'n
  CommitmentSupport :: 's
  CommitmentWalletPercentage :: 'n

record ('s, 'n) Commitment =
  commitmentId :: 's
  commitmentTitle :: 's
  commitmentPercentage :: 'n
  commitmentSupport :: 's
  commitmentWalletPercentage :: 'n

text \<open>
  \<^verbatim>\<open>FutureCommitmentData\<close> and \<^verbatim>\<open>PresentCommitmentData\<close> are the same structural
  type \<^verbatim>\<open>{ Commitments: Commitment[] }\<close>, and both info types are
  \<^verbatim>\<open>{ commitments: Commitment[] }\<close>.
\<close>

record ('s, 'n) CommitmentsData =
  Commitments :: "('s, 'n) CommitmentData list"

type_synonym ('s, 'n) FutureCommitmentData = "('s, 'n) CommitmentsData"
type_synonym ('s, 'n) PresentCommitmentData = "('s, 'n) CommitmentsData"

record ('s, 'n) CommitmentsInfo =
  commitments :: "('s, 'n) Commitment list"

type_synonym ('s, 'n) FutureCommitmentInfo = "('s, 'n) CommitmentsInfo"
type_synonym ('s, 'n) PresentCommitmentInfo = "('s, 'n) CommitmentsInfo"

definition prepareBankInformation :: "'s BankData \<Rightarrow> 's BankInfo" where
  "prepareBankInformation bankData =
     \<lparr>accountType = AccountType bankData,
      bankName = BankName bankData,
      accountNumber = AccountNumber bankData\<rparr>"

text \<open>The arrow function both commitment mappers pass to \<^verbatim>\<open>Array.prototype.map\<close>.\<close>

definition mapCommitment :: "('s, 'n) CommitmentData \<Rightarrow> ('s, 'n) Commitment" where
  "mapCommitment commitment =
     \<lparr>commitmentId = CommitmentId commitment,
      commitmentTitle = CommitmentTitle commitment,
      commitmentPercentage = CommitmentPercentage commitment,
      commitmentSupport = CommitmentSupport commitment,
      commitmentWalletPercentage = CommitmentWalletPercentage commitment\<rparr>"

definition prepareFutureCommitmentInformation ::
  "('s, 'n) FutureCommitmentData \<Rightarrow> ('s, 'n) FutureCommitmentInfo" where
  "prepareFutureCommitmentInformation futureCommitmentData =
     \<lparr>commitments = map mapCommitment (Commitments futureCommitmentData)\<rparr>"

definition preparePresentCommitmentInformation ::
  "('s, 'n) PresentCommitmentData \<Rightarrow> ('s, 'n) PresentCommitmentInfo" where
  "preparePresentCommitmentInformation presentCommitmentData =
     \<lparr>commitments = map mapCommitment (Commitments presentCommitmentData)\<rparr>"

section \<open>JavaScript strings and values\<close>

text \<open>
  A JavaScript string is a sequence of UTF-16 code units. \<open>js\<close> writes an ASCII literal
  of the source as such a string.
\<close>

type_synonym jsstring = "16 word list"

definition js :: "string \<Rightarrow> jsstring" where
  "js s = map of_char s"

text \<open>
  The values that travel through \<^verbatim>\<open>JSON\<close> and the store cells. Numbers are the integral
  ones only; \<^verbatim>\<open>NaN\<close>, functions and object identity are not represented in this type.
\<close>

datatype jsvalue =
    Undefined
  | Null
  | Bool bool
  | Num int
  | Str jsstring
  | Arr "jsvalue list"
  | Obj "(jsstring \<times> jsvalue) list"

datatype exn =
    SyntaxError jsstring
  | KeyNotFound jsstring
  | InvalidKeyLength nat
  | InvalidIvLength nat
  | WrongFinalBlockLength
  | UnableToDecryptData

text \<open>
  The platform's \<^verbatim>\<open>JSON\<close> object is a parameter of the model. \<open>JSON_parse\<close> answers
  \<open>None\<close> where \<^verbatim>\<open>JSON.parse\<close> throws a \<^verbatim>\<open>SyntaxError\<close>; \<open>JSON_stringify\<close> answers
  \<open>None\<close> where \<^verbatim>\<open>JSON.stringify\<close> returns \<^verbatim>\<open>undefined\<close>.
\<close>

record JSON =
  JSON_parse :: "jsstring \<Rightarrow> jsvalue option"
  JSON_stringify :: "jsvalue \<Rightarrow> jsstring option"

text \<open>
  \<open>JSON_literals\<close> is the platform's object on a part of its domain, to run the model on
  concrete inputs: on the values \<^verbatim>\<open>undefined\<close>, \<^verbatim>\<open>null\<close>, \<^verbatim>\<open>true\<close>, \<^verbatim>\<open>false\<close> and the
  plain strings (no quotation mark, backslash, control character or surrogate, so that
  the JSON text of the string is the string between quotation marks), and on the texts
  \<^verbatim>\<open>null\<close>, \<^verbatim>\<open>true\<close>, \<^verbatim>\<open>false\<close>, the quoted plain strings, and the texts that are no
  JSON text (such as \<^verbatim>\<open>undefined\<close> and \<^verbatim>\<open>{oops\<close>). It is used on these only.
\<close>

definition plain :: "jsstring \<Rightarrow> bool" where
  "plain s =
     list_all (\<lambda>c. 0x20 \<le> unat c \<and> c \<noteq> 0x22 \<and> c \<noteq> 0x5C \<and> \<not> (0xD800 \<le> unat c \<and> unat c \<le> 0xDFFF)) s"

definition quote :: "jsstring \<Rightarrow> jsstring" where
  "quote s = 0x22 # s @ [0x22]"

definition JSON_literals :: JSON where
  "JSON_literals =
     \<lparr>JSON_parse = (\<lambda>t. if t = js ''null'' then Some Null
                         else if t = js ''true'' then Some (Bool True)
                         else if t = js ''false'' then Some (Bool False)
                         else (case t of
                                 [] \<Rightarrow> None
                               | c # rest \<Rightarrow>
                                   if c = 0x22 \<and> rest \<noteq> [] \<and> last rest = 0x22 \<and> plain (butlast rest)
                                   then Some (Str (butlast rest)) else None)),
      JSON_stringify = (\<lambda>v. case v of
                           Null \<Rightarrow> Some (js ''null'')
                         | Bool True \<Rightarrow> Some (js ''true'')
                         | Bool False \<Rightarrow> Some (js ''false'')
                         | Str s \<Rightarrow> if plain s then Some (quote s) else None
                         | _ \<Rightarrow> None)\<rparr>"

text \<open>\<^verbatim>\<open>parse\<close> of the helpers: \<^verbatim>\<open>JSON.parse\<close>, with \<^verbatim>\<open>null\<close> for every exception.\<close>

definition parse :: "JSON \<Rightarrow> jsstring \<Rightarrow> jsvalue" where
  "parse J data = (case JSON_parse J data of Some v \<Rightarrow> v | None \<Rightarrow> Null)"

section \<open>The error cell of the store and its timer\<close>

text \<open>
  \<^verbatim>\<open>src/ui/lib/store.ts\<close>, lines 229 to 240: the writable cell \<^verbatim>\<open>error\<close>, the module
  variable \<^verbatim>\<open>errorTimeout\<close> and the subscriber. Time is a clock in milliseconds; the
  platform's timer table holds a handle and a due time for each pending timer, and a
  timer runs when the clock reaches its due time. \<open>autoCleared\<close> records the clock at
  each run of the timer's callback.
\<close>

record error_store =
  clock :: nat
  timers :: "(nat \<times> nat) list"
  nextTimerId :: nat
  error :: "jsstring option"
  errorTimeout :: "nat option"
  autoCleared :: "nat list"

text \<open>The test \<^verbatim>\<open>if (item)\<close>: \<^verbatim>\<open>null\<close> and the empty string are falsy.\<close>

definition truthy :: "jsstring option \<Rightarrow> bool" where
  "truthy item = (case item of None \<Rightarrow> False | Some s \<Rightarrow> s \<noteq> [])"

definition clearTimeout :: "nat option \<Rightarrow> error_store \<Rightarrow> error_store" where
  "clearTimeout handle s = s\<lparr>timers := filter (\<lambda>t. Some (fst t) \<noteq> handle) (timers s)\<rparr>"

definition setTimeout :: "nat \<Rightarrow> error_store \<Rightarrow> nat \<times> error_store" where
  "setTimeout ms s =
     (nextTimerId s,
      s\<lparr>timers := timers s @ [(nextTimerId s, clock s + ms)], nextTimerId := Suc (nextTimerId s)\<rparr>)"

definition error_subscriber :: "jsstring option \<Rightarrow> error_store \<Rightarrow> error_store" where
  "error_subscriber item s =
     (let s1 = clearTimeout (errorTimeout s) s in
      if truthy item
      then (let (h, s2) = setTimeout 3500 s1 in s2\<lparr>errorTimeout := Some h\<rparr>)
      else s1)"

text \<open>
  \<^verbatim>\<open>error.set\<close>: a writable cell stores the new value and runs its subscribers when the
  new value differs from the current one (for strings and \<^verbatim>\<open>null\<close> the cell compares
  with \<^verbatim>\<open>!==\<close>), and does nothing otherwise.
\<close>

definition error_set :: "jsstring option \<Rightarrow> error_store \<Rightarrow> error_store" where
  "error_set new_value s =
     (if error s \<noteq> new_value then error_subscriber new_value (s\<lparr>error := new_value\<rparr>) else s)"

text \<open>The timer's callback, \<^verbatim>\<open>() => { error.set(null); }\<close>.\<close>

definition timer_callback :: "error_store \<Rightarrow> error_store" where
  "timer_callback s = error_set None (s\<lparr>autoCleared := autoCleared s @ [clock s]\<rparr>)"

text \<open>The pending timer that is due first; of two with the same due time, the older.\<close>

fun earliest :: "(nat \<times> nat) list \<Rightarrow> (nat \<times> nat) option" where
  "earliest [] = None"
| "earliest (t # ts) =
     (case earliest ts of
        None \<Rightarrow> Some t
      | Some u \<Rightarrow> if snd u < snd t then Some u else Some t)"

definition fire :: "nat \<times> nat \<Rightarrow> error_store \<Rightarrow> error_store" where
  "fire t s = timer_callback (s\<lparr>clock := max (clock s) (snd t), timers := remove1 t (timers s)\<rparr>)"

lemma earliest_mem: "earliest ts = Some t \<Longrightarrow> t \<in> set ts"
  by (induction ts arbitrary: t) (auto split: option.splits if_splits)

lemma timers_callback_le: "length (timers (timer_callback s)) \<le> length (timers s)"
  by (simp add: timer_callback_def error_set_def error_subscriber_def clearTimeout_def truthy_def)

lemma fire_decreases:
  assumes "t \<in> set (timers s)"
  shows "length (timers (fire t s)) < length (timers s)"
proof -
  have "length (timers (fire t s)) \<le> length (remove1 t (timers s))"
    unfolding fire_def
    using timers_callback_le [of "s\<lparr>clock := max (clock s) (snd t), timers := remove1 t (timers s)\<rparr>"]
    by simp
  also have "\<dots> < length (timers s)"
    using assms by (cases "timers s") (auto simp: length_remove1 dest: length_pos_if_in_set)
  finally show ?thesis .
qed

text \<open>
  The event loop up to the time \<open>limit\<close>: the timers due by then run one after the other,
  each at its due time.
\<close>

function run_timers :: "nat \<Rightarrow> error_store \<Rightarrow> error_store" where
  "run_timers limit s =
     (case earliest (timers s) of
        None \<Rightarrow> s
      | Some t \<Rightarrow> if snd t \<le> limit then run_timers limit (fire t s) else s)"
  by pat_completeness auto
termination
  by (relation "measure (\<lambda>(limit, s). length (timers s))")
     (auto dest: earliest_mem intro: fire_decreases)

declare run_timers.simps [simp del]

definition advance :: "nat \<Rightarrow> error_store \<Rightarrow> error_store" where
  "advance ms s = (let s' = run_timers (clock s + ms) s in s'\<lparr>clock := clock s + ms\<rparr>)"

text \<open>
  Loading the module: the cell starts at \<^verbatim>\<open>null\<close>, and \<^verbatim>\<open>subscribe\<close> runs the subscriber
  once with the current value.
\<close>

definition init_error_store :: error_store where
  "init_error_store =
     error_subscriber None
       \<lparr>clock = 0, timers = [], nextTimerId = 0, error = None, errorTimeout = None, autoCleared = []\<rparr>"

text \<open>What happens to the cell afterwards: a caller sets it, or time passes.\<close>

datatype event = SetError "jsstring option" | Elapse nat

fun apply_event :: "error_store \<Rightarrow> event \<Rightarrow> error_store" where
  "apply_event s (SetError v) = error_set v s"
| "apply_event s (Elapse ms) = advance ms s"

definition run_events :: "event list \<Rightarrow> error_store" where
  "run_events es = foldl apply_event init_error_store es"

text \<open>
  The invariant of the states the module reaches: at most one timer is pending, it is the
  one \<^verbatim>\<open>errorTimeout\<close> names, it is due in the future, and the cell then holds a
  non-empty string.
\<close>

definition one_pending :: "error_store \<Rightarrow> bool" where
  "one_pending s =
     (case timers s of
        [] \<Rightarrow> True
      | [t] \<Rightarrow> errorTimeout s = Some (fst t) \<and> fst t < nextTimerId s \<and>
               clock s < snd t \<and> truthy (error s)
      | _ \<Rightarrow> False)"

section \<open>Persistent cells\<close>

text \<open>
  \<^verbatim>\<open>persistent\<close> of the helpers (\<^verbatim>\<open>src/unnamed/part_000\<close>, lines 382 to 401). The browser
  is the durable \<^verbatim>\<open>localStorage\<close>, a map from keys to texts, and the console's error
  log. \<^verbatim>\<open>getItem\<close> of an absent key is \<^verbatim>\<open>null\<close>, here \<open>None\<close>.
\<close>

record browser =
  localStorage :: "jsstring \<rightharpoonup> jsstring"
  consoleErrors :: "exn list"

record persistent_cell =
  cell_key :: jsstring
  cell_value :: jsvalue

text \<open>
  \<^verbatim>\<open>localStorage.setItem\<close> stores the string form of its argument: of \<^verbatim>\<open>undefined\<close>, the
  text \<^verbatim>\<open>undefined\<close>.
\<close>

definition setItem :: "jsstring \<Rightarrow> jsstring option \<Rightarrow> 'a browser_scheme \<Rightarrow> 'a browser_scheme" where
  "setItem key text b =
     b\<lparr>localStorage := (localStorage b)(key \<mapsto> (case text of None \<Rightarrow> js ''undefined'' | Some t \<Rightarrow> t))\<rparr>"

text \<open>The subscriber, \<^verbatim>\<open>localStorage.setItem(key, JSON.stringify($value))\<close>.\<close>

definition persist_subscriber ::
  "JSON \<Rightarrow> jsstring \<Rightarrow> jsvalue \<Rightarrow> 'a browser_scheme \<Rightarrow> 'a browser_scheme" where
  "persist_subscriber J key v b = setItem key (JSON_stringify J v) b"

text \<open>
  The constructor: the stored text, when there is one and it is not empty, is parsed; a
  parse error is caught and logged; \<^verbatim>\<open>subscribe\<close> runs the subscriber once with the
  cell's value.
\<close>

definition persistent ::
  "JSON \<Rightarrow> jsstring \<Rightarrow> jsvalue \<Rightarrow> 'a browser_scheme \<Rightarrow> persistent_cell \<times> 'a browser_scheme" where
  "persistent J key initialValue b =
     (let (v, b1) =
        (case localStorage b key of
           None \<Rightarrow> (initialValue, b)
         | Some json \<Rightarrow>
             if json = [] then (initialValue, b)
             else (case JSON_parse J json of
                     Some parsed \<Rightarrow> (parsed, b)
                   | None \<Rightarrow> (initialValue, b\<lparr>consoleErrors := consoleErrors b @ [SyntaxError json]\<rparr>)))
      in (\<lparr>cell_key = key, cell_value = v\<rparr>, persist_subscriber J key v b1))"

text \<open>
  \<^verbatim>\<open>set\<close> of a writable cell runs the subscribers when \<^verbatim>\<open>safe_not_equal\<close> of the current
  and the new value holds: the two differ, or the current one is an object (for an
  object the cell does not compare at all).
\<close>

fun is_object :: "jsvalue \<Rightarrow> bool" where
  "is_object (Arr _) = True"
| "is_object (Obj _) = True"
| "is_object _ = False"

definition safe_not_equal :: "jsvalue \<Rightarrow> jsvalue \<Rightarrow> bool" where
  "safe_not_equal a b = (a \<noteq> b \<or> is_object a)"

definition cell_set ::
  "JSON \<Rightarrow> jsvalue \<Rightarrow> persistent_cell \<times> 'a browser_scheme \<Rightarrow> persistent_cell \<times> 'a browser_scheme" where
  "cell_set J new_value cb =
     (let (c, b) = cb in
      if safe_not_equal (cell_value c) new_value
      then (c\<lparr>cell_value := new_value\<rparr>, persist_subscriber J (cell_key c) new_value b)
      else (c, b))"

text \<open>A restart of the application keeps \<^verbatim>\<open>localStorage\<close> and nothing else.\<close>

definition store_restart :: "'a browser_scheme \<Rightarrow> browser" where
  "store_restart b = \<lparr>localStorage = localStorage b, consoleErrors = []\<rparr>"

text \<open>The text \<open>setItem\<close> stores for a value.\<close>

definition stored_text :: "JSON \<Rightarrow> jsvalue \<Rightarrow> jsstring" where
  "stored_text J v = (case JSON_stringify J v of None \<Rightarrow> js ''undefined'' | Some t \<Rightarrow> t)"

definition mirrored :: "JSON \<Rightarrow> persistent_cell \<times> 'a browser_scheme \<Rightarrow> bool" where
  "mirrored J cb = (localStorage (snd cb) (cell_key (fst cb)) = Some (stored_text J (cell_value (fst cb))))"

section \<open>Promises and the keychain\<close>

datatype 'a promise = Resolved 'a | Rejected exn

text \<open>\<^verbatim>\<open>then\<close> with a callback that does not throw, and \<^verbatim>\<open>catch\<close>.\<close>

definition then_promise :: "'a promise \<Rightarrow> ('a \<Rightarrow> 'b) \<Rightarrow> 'b promise" where
  "then_promise p f = (case p of Resolved x \<Rightarrow> Resolved (f x) | Rejected e \<Rightarrow> Rejected e)"

definition catch_promise :: "'a promise \<Rightarrow> (exn \<Rightarrow> 'a) \<Rightarrow> 'a promise" where
  "catch_promise p f = (case p of Resolved x \<Rightarrow> Resolved x | Rejected e \<Rightarrow> Resolved (f e))"

text \<open>
  Modelled from the spec: the keychain (\<^verbatim>\<open>~/lib/keychain\<close>), which the identity service
  imports and which is not among the source files. The spec gives it as
  \<^verbatim>\<open>set(key, value) -> Promise<{value: bool}>\<close>,
  \<^verbatim>\<open>get(key) -> Promise<{value: string}>\<close> (rejects if absent) and
  \<^verbatim>\<open>clear() -> Promise<bool>\<close>, over opaque strings. A resolved \<open>Keychain_get\<close> carries
  the \<^verbatim>\<open>value\<close> field of the answer.
\<close>

type_synonym keychain_store = "jsstring \<rightharpoonup> jsstring"

definition Keychain_get :: "keychain_store \<Rightarrow> jsstring \<Rightarrow> jsstring promise" where
  "Keychain_get kc key = (case kc key of None \<Rightarrow> Rejected (KeyNotFound key) | Some v \<Rightarrow> Resolved v)"

definition Keychain_set :: "keychain_store \<Rightarrow> jsstring \<Rightarrow> jsstring \<Rightarrow> bool promise \<times> keychain_store" where
  "Keychain_set kc key v = (Resolved True, kc(key \<mapsto> v))"

definition Keychain_clear :: "keychain_store \<Rightarrow> bool promise \<times> keychain_store" where
  "Keychain_clear kc = (Resolved True, Map.empty)"

section \<open>Identity service: retrieval\<close>

text \<open>
  \<^verbatim>\<open>src/ui/lib/identity/index.ts\<close>, lines 220 to 224 and 293 to 297. The default
  parameter \<^verbatim>\<open>identifier = 'did'\<close> is the case \<open>None\<close>.
\<close>

definition retrieveIdentity :: "JSON \<Rightarrow> keychain_store \<Rightarrow> jsstring option \<Rightarrow> jsvalue promise" where
  "retrieveIdentity J kc identifier =
     catch_promise
       (then_promise (Keychain_get kc (case identifier of None \<Rightarrow> js ''did'' | Some i \<Rightarrow> i))
          (\<lambda>data. parse J data))
       (\<lambda>_. Null)"

definition retrieveCredential :: "JSON \<Rightarrow> keychain_store \<Rightarrow> jsstring \<Rightarrow> jsvalue promise" where
  "retrieveCredential J kc credentialId =
     catch_promise (then_promise (Keychain_get kc credentialId) (\<lambda>data. parse J data)) (\<lambda>_. Null)"

section \<open>The credential table and \<open>clearIdentity\<close>\<close>

text \<open>
  An object has an identity besides its content: \<open>ref\<close> is the address at which it was
  allocated. Two objects are reference-identical when their \<open>ref\<close> is the same and
  deep-equal when their contents are, whatever their \<open>ref\<close>.
\<close>

record 'a object =
  ref :: nat
  content :: 'a

datatype CredentialTypes =
  personal | immunity | visa | company | bank | insurance | futureCommitment | presentCommitment

record PersonalInfo =
  firstName :: "jsstring option"
  lastName :: "jsstring option"
  dateOfBirth :: jsstring
  birthPlace :: jsstring
  nationality :: jsstring
  countryOfResidence :: jsstring
  address :: jsstring
  identityCardNumber :: jsstring
  passportNumber :: jsstring
  phoneNumber :: jsstring
  email :: jsstring

text \<open>An entry of the table; \<open>data = None\<close> is \<^verbatim>\<open>data: null\<close>.\<close>

record Credential =
  heading :: jsstring
  subheading :: jsstring
  data :: "PersonalInfo object option"
  channelId :: "jsstring option"
  password :: "jsstring option"

text \<open>The table's content: its properties in the order of the object literal.\<close>

type_synonym Credentials = "(CredentialTypes \<times> Credential object) list"

definition fresh_entry :: "nat \<Rightarrow> string \<Rightarrow> string \<Rightarrow> Credential object" where
  "fresh_entry r h sh =
     \<lparr>ref = r, content = \<lparr>heading = js h, subheading = js sh, data = None, channelId = None, password = None\<rparr>\<rparr>"

text \<open>
  \<^verbatim>\<open>defaultCredentials\<close> (\<^verbatim>\<open>store.ts\<close>, lines 181 to 222): the literal allocates the table
  and its eight entries, here at the addresses 0 to 8.
\<close>

definition defaultCredentials :: "Credentials object" where
  "defaultCredentials =
     \<lparr>ref = 0, content =
       [(personal, fresh_entry 1 ''Home Office'' ''My Identity''),
        (immunity, fresh_entry 2 ''Public Health Authority'' ''Health Certificate''),
        (visa, fresh_entry 3 ''Foreign Border Agency'' ''Travel Visa''),
        (company, fresh_entry 4 ''Company House'' ''Business Details''),
        (bank, fresh_entry 5 ''SNS Bank'' ''Bank details''),
        (insurance, fresh_entry 6 ''Insurance'' ''Insurance details''),
        (futureCommitment, fresh_entry 7 ''The Far Future Foundation'' ''Future Commitment''),
        (presentCommitment, fresh_entry 8 ''The Now Foundation'' ''Present Commitment'')]\<rparr>"

text \<open>
  \<^verbatim>\<open>cloneDeep\<close> on a credential table: every object of the input (the table, each entry,
  each entry's data object) is copied to a newly allocated object, from the address \<open>n\<close>
  on; the result comes with the next free address.
\<close>

definition clone_entry :: "nat \<Rightarrow> Credential object \<Rightarrow> Credential object \<times> nat" where
  "clone_entry n e =
     (case data (content e) of
        None \<Rightarrow> (\<lparr>ref = n, content = content e\<rparr>, Suc n)
      | Some d \<Rightarrow>
          (\<lparr>ref = n, content = (content e)\<lparr>data := Some \<lparr>ref = Suc n, content = content d\<rparr>\<rparr>\<rparr>, Suc (Suc n)))"

fun clone_props :: "nat \<Rightarrow> Credentials \<Rightarrow> Credentials \<times> nat" where
  "clone_props n [] = ([], n)"
| "clone_props n ((k, e) # ps) =
     (let (e', n1) = clone_entry n e;
          (ps', n2) = clone_props n1 ps
      in ((k, e') # ps', n2))"

definition cloneDeep :: "nat \<Rightarrow> Credentials object \<Rightarrow> Credentials object \<times> nat" where
  "cloneDeep n t = (let (ps, n') = clone_props (Suc n) (content t) in (\<lparr>ref = n, content = ps\<rparr>, n'))"

text \<open>The addresses of all objects of a table, and deep equality of two tables.\<close>

definition entry_refs :: "Credential object \<Rightarrow> nat list" where
  "entry_refs e = ref e # (case data (content e) of None \<Rightarrow> [] | Some d \<Rightarrow> [ref d])"

definition refs_of :: "Credentials object \<Rightarrow> nat list" where
  "refs_of t = ref t # concat (map (entry_refs \<circ> snd) (content t))"

definition entry_equal :: "Credential object \<Rightarrow> Credential object \<Rightarrow> bool" where
  "entry_equal a b =
     (heading (content a) = heading (content b) \<and>
      subheading (content a) = subheading (content b) \<and>
      map_option content (data (content a)) = map_option content (data (content b)) \<and>
      channelId (content a) = channelId (content b) \<and>
      password (content a) = password (content b))"

definition deep_equal :: "Credentials object \<Rightarrow> Credentials object \<Rightarrow> bool" where
  "deep_equal s t =
     list_all2 (\<lambda>p q. fst p = fst q \<and> entry_equal (snd p) (snd q)) (content s) (content t)"

text \<open>
  The state \<open>clearIdentity\<close> works on: the browser, the two persistent cells
  \<^verbatim>\<open>hasSetupAccount\<close> and \<^verbatim>\<open>dataVersion\<close>, the writable cell \<^verbatim>\<open>credentials\<close>, the
  keychain, and the next free address of the heap.
\<close>

record app_state = browser +
  hasSetupAccount :: persistent_cell
  dataVersion :: persistent_cell
  credentials :: "Credentials object"
  keychain :: keychain_store
  nextRef :: nat

definition hasSetupAccount_set :: "JSON \<Rightarrow> jsvalue \<Rightarrow> app_state \<Rightarrow> app_state" where
  "hasSetupAccount_set J v s =
     (let (c, s') = cell_set J v (hasSetupAccount s, s) in s'\<lparr>hasSetupAccount := c\<rparr>)"

definition dataVersion_set :: "JSON \<Rightarrow> jsvalue \<Rightarrow> app_state \<Rightarrow> app_state" where
  "dataVersion_set J v s =
     (let (c, s') = cell_set J v (dataVersion s, s) in s'\<lparr>dataVersion := c\<rparr>)"

definition credentials_set :: "Credentials object \<Rightarrow> app_state \<Rightarrow> app_state" where
  "credentials_set t s = s\<lparr>credentials := t\<rparr>"

text \<open>\<^verbatim>\<open>clearIdentity\<close> (\<^verbatim>\<open>identity/index.ts\<close>, lines 203 to 208).\<close>

definition clearIdentity :: "JSON \<Rightarrow> app_state \<Rightarrow> bool promise \<times> app_state" where
  "clearIdentity J s =
     (let s1 = hasSetupAccount_set J (Bool False) s;
          s2 = dataVersion_set J Undefined s1;
          (t, n) = cloneDeep (nextRef s2) defaultCredentials;
          s3 = credentials_set t (s2\<lparr>nextRef := n\<rparr>);
          (p, kc) = Keychain_clear (keychain s3)
      in (p, s3\<lparr>keychain := kc\<rparr>))"

text \<open>
  Loading \<^verbatim>\<open>store.ts\<close> over a disk and a keychain: the two persistent cells (lines 8 and
  13), the default table at the addresses 0 to 8, and the cell \<^verbatim>\<open>credentials\<close> with a
  clone of it (line 224).
\<close>

definition init_store :: "JSON \<Rightarrow> (jsstring \<rightharpoonup> jsstring) \<Rightarrow> keychain_store \<Rightarrow> app_state" where
  "init_store J disk kc =
     (let b0 = \<lparr>localStorage = disk, consoleErrors = []\<rparr>;
          (c1, b1) = persistent J (js ''hasSetupAccount'') (Bool False) b0;
          (c2, b2) = persistent J (js ''dataVersion'') Undefined b1;
          (t, n) = cloneDeep 9 defaultCredentials
      in \<lparr>localStorage = localStorage b2, consoleErrors = consoleErrors b2,
          hasSetupAccount = c1, dataVersion = c2, credentials = t, keychain = kc, nextRef = n\<rparr>)"

section \<open>Bytes and UTF-8\<close>

type_synonym byte = "8 word"

text \<open>
  Modelled from the spec: the payload and the key are used "as UTF-8 bytes", and the
  decrypted bytes are returned as "the decrypted UTF-8 string". The conversions are
  those of the platform's \<^verbatim>\<open>Buffer\<close> (\<^verbatim>\<open>Buffer.from(string)\<close>, \<^verbatim>\<open>buf.toString()\<close>), which
  is not part of the repository. A string is a sequence of UTF-16 code units: a lead
  surrogate followed by a trail surrogate is one code point, any other surrogate is
  encoded as the replacement character U+FFFD.
\<close>

definition is_lead :: "nat \<Rightarrow> bool" where
  "is_lead c = (0xD800 \<le> c \<and> c \<le> 0xDBFF)"

definition is_trail :: "nat \<Rightarrow> bool" where
  "is_trail c = (0xDC00 \<le> c \<and> c \<le> 0xDFFF)"

definition replacement :: "byte list" where
  "replacement = [0xEF, 0xBF, 0xBD]"

definition encode_cp :: "nat \<Rightarrow> byte list" where
  "encode_cp c =
     (if c < 0x80 then [of_nat c]
      else if c < 0x800 then [of_nat (0xC0 + c div 64), of_nat (0x80 + c mod 64)]
      else if c < 0x10000 then
        [of_nat (0xE0 + c div 4096), of_nat (0x80 + c div 64 mod 64), of_nat (0x80 + c mod 64)]
      else
        [of_nat (0xF0 + c div 262144), of_nat (0x80 + c div 4096 mod 64),
         of_nat (0x80 + c div 64 mod 64), of_nat (0x80 + c mod 64)])"

fun utf8ToBytes :: "jsstring \<Rightarrow> byte list" where
  "utf8ToBytes [] = []"
| "utf8ToBytes (u # us) =
     (if is_lead (unat u) then
        (case us of
           [] \<Rightarrow> replacement
         | v # vs \<Rightarrow>
             if is_trail (unat v)
             then encode_cp (0x10000 + (unat u - 0xD800) * 1024 + (unat v - 0xDC00)) @ utf8ToBytes vs
             else replacement @ utf8ToBytes us)
      else if is_trail (unat u) then replacement @ utf8ToBytes us
      else encode_cp (unat u) @ utf8ToBytes us)"

text \<open>
  Decoding: the first byte gives the length of the sequence; a sequence that is cut
  short, malformed, overlong, a surrogate or beyond U+10FFFF yields U+FFFD for its first
  byte, and decoding goes on at the next byte.
\<close>

definition continuation :: "byte \<Rightarrow> bool" where
  "continuation b = (0x80 \<le> unat b \<and> unat b \<le> 0xBF)"

definition bytesPerSequence :: "byte \<Rightarrow> nat" where
  "bytesPerSequence firstByte =
     (if 0xEF < unat firstByte then 4 else if 0xDF < unat firstByte then 3
      else if 0xBF < unat firstByte then 2 else 1)"

fun codePoint :: "byte list \<Rightarrow> nat option" where
  "codePoint [b1] = (if unat b1 < 0x80 then Some (unat b1) else None)"
| "codePoint [b1, b2] =
     (let cp = unat b1 mod 32 * 64 + unat b2 mod 64 in
      if continuation b2 \<and> 0x7F < cp then Some cp else None)"
| "codePoint [b1, b2, b3] =
     (let cp = unat b1 mod 16 * 4096 + unat b2 mod 64 * 64 + unat b3 mod 64 in
      if continuation b2 \<and> continuation b3 \<and> 0x7FF < cp \<and> (cp < 0xD800 \<or> 0xDFFF < cp)
      then Some cp else None)"
| "codePoint [b1, b2, b3, b4] =
     (let cp = unat b1 mod 16 * 262144 + unat b2 mod 64 * 4096 + unat b3 mod 64 * 64 + unat b4 mod 64 in
      if continuation b2 \<and> continuation b3 \<and> continuation b4 \<and> 0xFFFF < cp \<and> cp < 0x110000
      then Some cp else None)"
| "codePoint _ = None"

definition code_units :: "nat \<Rightarrow> jsstring" where
  "code_units cp =
     (if 0xFFFF < cp
      then [of_nat (0xD800 + (cp - 0x10000) div 1024), of_nat (0xDC00 + (cp - 0x10000) mod 1024)]
      else [of_nat cp])"

lemma bytesPerSequence_pos: "0 < bytesPerSequence b"
  by (simp add: bytesPerSequence_def)

function utf8Slice :: "byte list \<Rightarrow> jsstring" where
  "utf8Slice [] = []"
| "utf8Slice (b # bs) =
     (let n = bytesPerSequence b in
      case (if n \<le> length (b # bs) then codePoint (take n (b # bs)) else None) of
        None \<Rightarrow> 0xFFFD # utf8Slice bs
      | Some cp \<Rightarrow> code_units cp @ utf8Slice (drop n (b # bs)))"
  by pat_completeness auto
termination
  by (relation "measure length") (use bytesPerSequence_pos in \<open>auto simp add: Suc_le_eq\<close>)

text \<open>A string is well formed when every surrogate in it belongs to a pair.\<close>

fun well_formed :: "jsstring \<Rightarrow> bool" where
  "well_formed [] = True"
| "well_formed (u # us) =
     (if is_lead (unat u) then (case us of [] \<Rightarrow> False | v # vs \<Rightarrow> is_trail (unat v) \<and> well_formed vs)
      else \<not> is_trail (unat u) \<and> well_formed us)"

section \<open>Hexadecimal text\<close>

text \<open>
  \<^verbatim>\<open>convertByteArrayToHex\<close> (\<^verbatim>\<open>src/unnamed/part_000\<close>, lines 93 to 105): the loop pushes
  \<^verbatim>\<open>(current >>> 4).toString(16)\<close> and \<^verbatim>\<open>(current & 0xf).toString(16)\<close> for each byte,
  and the result is the pushed texts joined. \<open>toString16\<close> is \<^verbatim>\<open>toString(16)\<close> on a
  natural number.
\<close>

definition hex_digit :: "nat \<Rightarrow> 16 word" where
  "hex_digit n = js ''0123456789abcdef'' ! n"

function toString16 :: "nat \<Rightarrow> jsstring" where
  "toString16 n = (if n < 16 then [hex_digit n] else toString16 (n div 16) @ [hex_digit (n mod 16)])"
  by pat_completeness auto
termination
  by (relation "measure id") auto

declare toString16.simps [simp del]

fun hex_pushes :: "byte list \<Rightarrow> jsstring list" where
  "hex_pushes [] = []"
| "hex_pushes (b # bytes) =
     (let current = (if uint b < 0 then uint b + 256 else uint b) in
      toString16 (nat (drop_bit 4 current)) # toString16 (nat (current AND 0xf)) # hex_pushes bytes)"

definition convertByteArrayToHex :: "byte list \<Rightarrow> jsstring" where
  "convertByteArrayToHex bytes = concat (hex_pushes bytes)"

text \<open>
  Modelled from the spec: \<^verbatim>\<open>hex(ciphertext)\<close>, which the source takes from the platform's
  \<^verbatim>\<open>Buffer\<close> (\<^verbatim>\<open>toString('hex')\<close>: two lower-case digits for each byte), and the reading of
  hexadecimal text (\<^verbatim>\<open>Buffer.from(text, 'hex')\<close>: one byte for each pair of digits; the
  result ends at the first pair that is not two hexadecimal digits).
\<close>

definition Buffer_toString_hex :: "byte list \<Rightarrow> jsstring" where
  "Buffer_toString_hex buf = concat (map (\<lambda>b. [hex_digit (unat b div 16), hex_digit (unat b mod 16)]) buf)"

definition hex_value :: "16 word \<Rightarrow> nat option" where
  "hex_value c =
     (let n = unat c in
      if 48 \<le> n \<and> n \<le> 57 then Some (n - 48)
      else if 97 \<le> n \<and> n \<le> 102 then Some (n - 87)
      else if 65 \<le> n \<and> n \<le> 70 then Some (n - 55)
      else None)"

fun Buffer_from_hex :: "jsstring \<Rightarrow> byte list" where
  "Buffer_from_hex (c1 # c2 # cs) =
     (case (hex_value c1, hex_value c2) of
        (Some h, Some l) \<Rightarrow> of_nat (h * 16 + l) # Buffer_from_hex cs
      | _ \<Rightarrow> [])"
| "Buffer_from_hex _ = []"

section \<open>Splitting and joining strings\<close>

text \<open>
  \<^verbatim>\<open>String.prototype.split\<close> with a one-character separator, and \<^verbatim>\<open>Array.prototype.join\<close>.
  \<open>split\<close> never returns the empty list, so that \<^verbatim>\<open>shift()\<close> is \<open>hd\<close> and leaves \<open>tl\<close>.
\<close>

fun split_from :: "16 word \<Rightarrow> jsstring \<Rightarrow> jsstring \<Rightarrow> jsstring list" where
  "split_from sep part [] = [part]"
| "split_from sep part (c # cs) =
     (if c = sep then part # split_from sep [] cs else split_from sep (part @ [c]) cs)"

definition split :: "16 word \<Rightarrow> jsstring \<Rightarrow> jsstring list" where
  "split sep s = split_from sep [] s"

fun join :: "16 word \<Rightarrow> jsstring list \<Rightarrow> jsstring" where
  "join sep [] = []"
| "join sep [p] = p"
| "join sep (p # q # ps) = p @ sep # join sep (q # ps)"

section \<open>The cipher\<close>

text \<open>
  The block cipher itself (the AES object of the cipher library, keyed with 32 bytes,
  on blocks of 16 bytes) is a parameter of the model: \<open>encryptBlock A k\<close> and
  \<open>decryptBlock A k\<close> are its two directions under the key \<open>k\<close>. \<open>cipher_ok A k\<close> is
  the contract the proofs use: under the key \<open>k\<close> the two directions are permutations of
  the 16-byte blocks, inverse to each other.
\<close>

record block_cipher =
  encryptBlock :: "byte list \<Rightarrow> byte list \<Rightarrow> byte list"
  decryptBlock :: "byte list \<Rightarrow> byte list \<Rightarrow> byte list"

definition cipher_ok :: "block_cipher \<Rightarrow> byte list \<Rightarrow> bool" where
  "cipher_ok A k =
     (\<forall>b. length b = 16 \<longrightarrow>
        length (encryptBlock A k b) = 16 \<and> length (decryptBlock A k b) = 16 \<and>
        decryptBlock A k (encryptBlock A k b) = b \<and> encryptBlock A k (decryptBlock A k b) = b)"

text \<open>
  Modelled from the spec: "a 256-bit block cipher in CBC mode with PKCS padding", with
  the interface the source uses (\<^verbatim>\<open>createCipheriv\<close>, \<^verbatim>\<open>createDecipheriv\<close>, \<^verbatim>\<open>update\<close>,
  \<^verbatim>\<open>final\<close>). Creating a cipher refuses a key that is not 32 bytes and an initialization
  vector that is not 16 bytes; \<^verbatim>\<open>createCipheriv\<close> looks at the key first,
  \<^verbatim>\<open>createDecipheriv\<close> at the initialization vector first. \<^verbatim>\<open>update\<close> appends to the cache and processes the complete
  blocks in it (a decipher keeps the last complete block back for \<^verbatim>\<open>final\<close>); \<^verbatim>\<open>final\<close>
  of a cipher pads the cache to one block with \<open>n\<close> bytes of value \<open>n\<close> and encrypts it,
  \<^verbatim>\<open>final\<close> of a decipher decrypts the block left in the cache and removes the padding,
  which it checks; a cache that is not one block at that point is an error as well.
\<close>

definition xor_bytes :: "byte list \<Rightarrow> byte list \<Rightarrow> byte list" where
  "xor_bytes a b = map (\<lambda>(x, y). x XOR y) (zip a b)"

record cipher =
  cipher_key :: "byte list"
  prev :: "byte list"
  cache :: "byte list"

definition createCipheriv :: "byte list \<Rightarrow> byte list \<Rightarrow> exn + cipher" where
  "createCipheriv secret iv =
     (if length secret \<noteq> 32 then Inl (InvalidKeyLength (length secret))
      else if length iv \<noteq> 16 then Inl (InvalidIvLength (length iv))
      else Inr \<lparr>cipher_key = secret, prev = iv, cache = []\<rparr>)"

definition createDecipheriv :: "byte list \<Rightarrow> byte list \<Rightarrow> exn + cipher" where
  "createDecipheriv secret iv =
     (if length iv \<noteq> 16 then Inl (InvalidIvLength (length iv))
      else if length secret \<noteq> 32 then Inl (InvalidKeyLength (length secret))
      else Inr \<lparr>cipher_key = secret, prev = iv, cache = []\<rparr>)"

function encrypt_chunks :: "block_cipher \<Rightarrow> cipher \<Rightarrow> byte list \<times> cipher" where
  "encrypt_chunks A c =
     (if 15 < length (cache c)
      then (let out = encryptBlock A (cipher_key c) (xor_bytes (take 16 (cache c)) (prev c));
                (more, c') = encrypt_chunks A (c\<lparr>prev := out, cache := drop 16 (cache c)\<rparr>)
            in (out @ more, c'))
      else ([], c))"
  by pat_completeness auto
termination
  by (relation "measure (\<lambda>(A, c). length (cache c))") auto

declare encrypt_chunks.simps [simp del]

definition cipher_update :: "block_cipher \<Rightarrow> cipher \<Rightarrow> byte list \<Rightarrow> byte list \<times> cipher" where
  "cipher_update A c input = encrypt_chunks A (c\<lparr>cache := cache c @ input\<rparr>)"

definition cipher_final :: "block_cipher \<Rightarrow> cipher \<Rightarrow> byte list" where
  "cipher_final A c =
     (let len = 16 - length (cache c);
          chunk = cache c @ replicate len (of_nat len)
      in encryptBlock A (cipher_key c) (xor_bytes chunk (prev c)))"

function decrypt_chunks :: "block_cipher \<Rightarrow> cipher \<Rightarrow> byte list \<times> cipher" where
  "decrypt_chunks A c =
     (if 16 < length (cache c)
      then (let chunk = take 16 (cache c);
                out = xor_bytes (decryptBlock A (cipher_key c) chunk) (prev c);
                (more, c') = decrypt_chunks A (c\<lparr>prev := chunk, cache := drop 16 (cache c)\<rparr>)
            in (out @ more, c'))
      else ([], c))"
  by pat_completeness auto
termination
  by (relation "measure (\<lambda>(A, c). length (cache c))") auto

declare decrypt_chunks.simps [simp del]

definition decipher_update :: "block_cipher \<Rightarrow> cipher \<Rightarrow> byte list \<Rightarrow> byte list \<times> cipher" where
  "decipher_update A c input = decrypt_chunks A (c\<lparr>cache := cache c @ input\<rparr>)"

definition unpad :: "byte list \<Rightarrow> exn + byte list" where
  "unpad final_block =
     (let padded = unat (final_block ! 15) in
      if padded < 1 \<or> 16 < padded then Inl UnableToDecryptData
      else if list_ex (\<lambda>i. final_block ! (i + (16 - padded)) \<noteq> of_nat padded) [0..<padded]
      then Inl UnableToDecryptData
      else Inr (take (16 - padded) final_block))"

definition decipher_final :: "block_cipher \<Rightarrow> cipher \<Rightarrow> exn + byte list" where
  "decipher_final A c =
     (if length (cache c) \<noteq> 16 then Inl WrongFinalBlockLength
      else unpad (xor_bytes (decryptBlock A (cipher_key c) (cache c)) (prev c)))"

text \<open>
  \<^verbatim>\<open>crypto.getRandomValues\<close> fills the array it is given; the entropy is a parameter, the
  function \<open>random\<close> from positions to bytes drawn for this call.
\<close>

definition getRandomValues :: "(nat \<Rightarrow> byte) \<Rightarrow> byte list \<Rightarrow> byte list" where
  "getRandomValues random array = map random [0..<length array]"

definition Uint8Array :: "nat \<Rightarrow> byte list" where
  "Uint8Array n = replicate n 0"

section \<open>\<open>encrypt\<close> and \<open>decrypt\<close>\<close>

text \<open>
  \<^verbatim>\<open>src/unnamed/part_000\<close>, lines 130 to 140 and 152 to 161. An exception of the
  cipher library is the result \<open>Inl\<close>.
\<close>

definition encrypt :: "block_cipher \<Rightarrow> (nat \<Rightarrow> byte) \<Rightarrow> jsstring \<Rightarrow> jsstring \<Rightarrow> exn + jsstring" where
  "encrypt A random key payload =
     (let IV_LENGTH = 16;
          iv = getRandomValues random (Uint8Array IV_LENGTH)
      in case createCipheriv (utf8ToBytes key) iv of
           Inl e \<Rightarrow> Inl e
         | Inr cipher \<Rightarrow>
             (let (encrypted, cipher') = cipher_update A cipher (utf8ToBytes payload);
                  encrypted' = encrypted @ cipher_final A cipher'
              in Inr (convertByteArrayToHex iv @ js '':'' @ Buffer_toString_hex encrypted')))"

definition decrypt :: "block_cipher \<Rightarrow> jsstring \<Rightarrow> jsstring \<Rightarrow> exn + jsstring" where
  "decrypt A key payload =
     (let textParts = split (of_char CHR '':'') payload;
          iv = Buffer_from_hex (hd textParts);
          encryptedText = Buffer_from_hex (join (of_char CHR '':'') (tl textParts))
      in case createDecipheriv (utf8ToBytes key) iv of
           Inl e \<Rightarrow> Inl e
         | Inr decipher \<Rightarrow>
             (let (decrypted, decipher') = decipher_update A decipher encryptedText
              in case decipher_final A decipher' of
                   Inl e \<Rightarrow> Inl e
                 | Inr rest \<Rightarrow> Inr (utf8Slice (decrypted @ rest))))"

text \<open>
  What \<open>encrypt\<close> and \<open>decrypt\<close> do between the texts: the bytes a cipher produces for an
  input, and the bytes a decipher returns.
\<close>

definition encrypt_bytes :: "block_cipher \<Rightarrow> byte list \<Rightarrow> byte list \<Rightarrow> byte list \<Rightarrow> byte list" where
  "encrypt_bytes A k iv input =
     (let (encrypted, c) = cipher_update A \<lparr>cipher_key = k, prev = iv, cache = []\<rparr> input
      in encrypted @ cipher_final A c)"

definition decrypt_bytes :: "block_cipher \<Rightarrow> byte list \<Rightarrow> byte list \<Rightarrow> byte list \<Rightarrow> exn + byte list" where
  "decrypt_bytes A k iv input =
     (let (decrypted, d) = decipher_update A \<lparr>cipher_key = k, prev = iv, cache = []\<rparr> input
      in case decipher_final A d of Inl e \<Rightarrow> Inl e | Inr rest \<Rightarrow> Inr (decrypted @ rest))"



text \<open>
  A block cipher and an entropy source to run the model on concrete inputs: the cipher
  adds the two halves of the key to the block, bit by bit. It satisfies \<open>cipher_ok\<close>
  for every key of 32 bytes; it is not AES, and the theorems below hold for every block
  cipher that satisfies \<open>cipher_ok\<close>.
\<close>

definition xor_cipher :: block_cipher where
  "xor_cipher =
     \<lparr>encryptBlock = (\<lambda>k b. xor_bytes b (xor_bytes (take 16 k) (drop 16 k))),
      decryptBlock = (\<lambda>k b. xor_bytes b (xor_bytes (take 16 k) (drop 16 k)))\<rparr>"

definition counting :: "nat \<Rightarrow> byte" where
  "counting i = of_nat (17 * i + 3)"

section \<open>Properties of the data mapping layer\<close>

text \<open>
  Claim C6. \<open>prepareBankInformation\<close> applied to the payload with bank name Acme, account
  type Checking, account number 123 and IBAN X returns exactly the record with those
  three values under the camel-case names: the result type has no IBAN field, and for
  any payload each retained field carries the input's value unchanged.
\<close>

theorem prepareBankInformation_example:
  "prepareBankInformation
     \<lparr>BankName = ''Acme'', AccountType = ''Checking'', AccountNumber = ''123'', AccountIBAN = ''X''\<rparr>
   = \<lparr>accountType = ''Checking'', bankName = ''Acme'', accountNumber = ''123''\<rparr>
   \<and> bankName (prepareBankInformation b) = BankName b
   \<and> accountType (prepareBankInformation b) = AccountType b
   \<and> accountNumber (prepareBankInformation b) = AccountNumber b"
  by (simp add: prepareBankInformation_def)

text \<open>
  Claim C7. For every input commitment list, \<open>prepareFutureCommitmentInformation\<close> and
  \<open>preparePresentCommitmentInformation\<close> return a commitments list of the same length
  and in the same order: the commitment at position \<open>i\<close> of the output carries the id,
  title, percentage, support and wallet percentage of the commitment at position \<open>i\<close>
  of the input, each value unchanged.
\<close>

theorem prepareCommitmentInformation_elementwise:
  fixes d :: "('s, 'n) CommitmentsData"
  defines "fut \<equiv> commitments (prepareFutureCommitmentInformation d)"
    and "pre \<equiv> commitments (preparePresentCommitmentInformation d)"
  shows "length fut = length (Commitments d) \<and> length pre = length (Commitments d) \<and>
    (\<forall>i < length (Commitments d). \<forall>out \<in> {fut ! i, pre ! i}.
       commitmentId out = CommitmentId (Commitments d ! i) \<and>
       commitmentTitle out = CommitmentTitle (Commitments d ! i) \<and>
       commitmentPercentage out = CommitmentPercentage (Commitments d ! i) \<and>
       commitmentSupport out = CommitmentSupport (Commitments d ! i) \<and>
       commitmentWalletPercentage out = CommitmentWalletPercentage (Commitments d ! i))"
  by (simp add: fut_def pre_def prepareFutureCommitmentInformation_def
      preparePresentCommitmentInformation_def mapCommitment_def)

theorem prepareCommitmentInformation_elementwise_witness:
  "commitments (prepareFutureCommitmentInformation
      \<lparr>Commitments = [
         \<lparr>CommitmentId = ''c1'', CommitmentTitle = ''Trees'', CommitmentPercentage = (10::int),
          CommitmentSupport = ''NGO'', CommitmentWalletPercentage = 25\<rparr>,
         \<lparr>CommitmentId = ''c2'', CommitmentTitle = ''Water'', CommitmentPercentage = 5,
          CommitmentSupport = ''Fund'', CommitmentWalletPercentage = 0\<rparr>]\<rparr>) ! 1
   = \<lparr>commitmentId = ''c2'', commitmentTitle = ''Water'', commitmentPercentage = 5,
      commitmentSupport = ''Fund'', commitmentWalletPercentage = 0\<rparr>"
  using prepareCommitmentInformation_elementwise [of
      "\<lparr>Commitments = [
         \<lparr>CommitmentId = ''c1'', CommitmentTitle = ''Trees'', CommitmentPercentage = (10::int),
          CommitmentSupport = ''NGO'', CommitmentWalletPercentage = 25\<rparr>,
         \<lparr>CommitmentId = ''c2'', CommitmentTitle = ''Water'', CommitmentPercentage = 5,
          CommitmentSupport = ''Fund'', CommitmentWalletPercentage = 0\<rparr>]\<rparr>"]
  by (simp add: prepareFutureCommitmentInformation_def mapCommitment_def)
section \<open>Properties of the error cell\<close>

lemma one_pending_cases:
  assumes "one_pending s"
  obtains (idle) "timers s = []"
  | (pending) h due where "timers s = [(h, due)]" "errorTimeout s = Some h" "clock s < due"
      "truthy (error s)" "h < nextTimerId s"
  using assms unfolding one_pending_def
  by (cases "timers s") (auto split: list.splits)

lemma error_set_truthy:
  assumes "one_pending s" "truthy v" "error s \<noteq> v"
  shows "error_set v s =
    s\<lparr>error := v, timers := [(nextTimerId s, clock s + 3500)],
      nextTimerId := Suc (nextTimerId s), errorTimeout := Some (nextTimerId s)\<rparr>"
  using assms(1)
  by (cases rule: one_pending_cases)
     (use assms(2,3) in \<open>simp_all add: error_set_def error_subscriber_def clearTimeout_def setTimeout_def\<close>)

lemma error_set_falsy:
  assumes "one_pending s" "\<not> truthy v"
  shows "error_set v s = (if error s = v then s else s\<lparr>error := v, timers := []\<rparr>)"
  using assms(1)
  by (cases rule: one_pending_cases)
     (use assms(2) in \<open>auto simp add: error_set_def error_subscriber_def clearTimeout_def\<close>)

lemma run_timers_idle: "timers s = [] \<Longrightarrow> run_timers limit s = s"
  by (subst run_timers.simps) simp

lemma run_timers_pending:
  assumes "timers s = [(h, due)]" "errorTimeout s = Some h" "truthy (error s)"
  shows "run_timers limit s =
    (if due \<le> limit
     then s\<lparr>clock := max (clock s) due, timers := [],
            autoCleared := autoCleared s @ [max (clock s) due], error := None\<rparr>
     else s)"
proof (cases "due \<le> limit")
  case False
  then show ?thesis using assms by (subst run_timers.simps) simp
next
  case True
  have f: "fire (h, due) s = s\<lparr>clock := max (clock s) due, timers := [],
            autoCleared := autoCleared s @ [max (clock s) due], error := None\<rparr>"
    using assms
    by (auto simp add: fire_def timer_callback_def error_set_def error_subscriber_def
        clearTimeout_def truthy_def split: option.splits)
  have "run_timers limit s = run_timers limit (fire (h, due) s)"
    using assms True by (subst run_timers.simps) simp
  also have "\<dots> = fire (h, due) s"
    by (rule run_timers_idle) (simp add: f)
  finally show ?thesis using True f by simp
qed

lemma one_pending_init: "one_pending init_error_store"
  by (simp add: one_pending_def init_error_store_def error_subscriber_def clearTimeout_def truthy_def)

lemma one_pending_error_set: "one_pending s \<Longrightarrow> one_pending (error_set v s)"
proof -
  assume i: "one_pending s"
  show ?thesis
  proof (cases "truthy v")
    case True
    show ?thesis
    proof (cases "error s = v")
      case True then show ?thesis using i by (simp add: error_set_def)
    next
      case False
      show ?thesis using \<open>truthy v\<close> by (simp add: error_set_truthy [OF i \<open>truthy v\<close> False] one_pending_def)
    qed
  next
    case False
    show ?thesis using i by (auto simp add: error_set_falsy [OF i False] one_pending_def)
  qed
qed

lemma advance_idle: "timers s = [] \<Longrightarrow> advance ms s = s\<lparr>clock := clock s + ms\<rparr>"
  by (simp add: advance_def run_timers_idle)

lemma advance_pending:
  assumes "timers s = [(h, due)]" "errorTimeout s = Some h" "truthy (error s)" "clock s < due"
  shows "advance ms s =
    (if due \<le> clock s + ms
     then s\<lparr>clock := clock s + ms, timers := [], autoCleared := autoCleared s @ [due], error := None\<rparr>
     else s\<lparr>clock := clock s + ms\<rparr>)"
  using assms(4) by (simp add: advance_def run_timers_pending [OF assms(1-3)] max_def)

lemma one_pending_advance:
  assumes "one_pending s"
  shows "one_pending (advance ms s)"
  using assms
proof (cases rule: one_pending_cases)
  case idle
  show ?thesis by (simp add: advance_idle [OF idle] one_pending_def idle)
next
  case (pending h due)
  show ?thesis by (simp add: advance_pending [OF pending(1,2,4,3)] one_pending_def pending)
qed

lemma one_pending_foldl: "one_pending s \<Longrightarrow> one_pending (foldl apply_event s es)"
proof (induction es arbitrary: s)
  case Nil then show ?case by simp
next
  case (Cons e es)
  have "one_pending (apply_event s e)"
    using Cons.prems by (cases e) (simp_all add: one_pending_error_set one_pending_advance)
  then show ?case using Cons.IH by simp
qed

lemma one_pending_run: "one_pending (run_events es)"
  unfolding run_events_def by (rule one_pending_foldl) (rule one_pending_init)

text \<open>
  Claim C4, as amended. In a state the module has reached, setting the cell to the value
  it already holds changes nothing: no timer is cancelled and none is started. Setting
  the cell to a non-empty string \<open>a\<close> that it does not already hold schedules one timer,
  due 3500 ms later, and when it runs the cell is back at \<^verbatim>\<open>null\<close>. Setting the cell to
  a different non-empty string \<open>b\<close> after \<open>d < 3500\<close> ms cancels that timer and schedules
  a new one: the only pending timer is then due 3500 ms after the second set, no
  automatic clear happens before that time (none 3500 ms after the first set), and
  exactly one happens at that time.
\<close>

theorem error_autoclear_restarts:
  fixes es :: "event list" and a b :: jsstring and d T :: nat
  defines "s0 \<equiv> run_events es"
  defines "s1 \<equiv> error_set (Some a) s0"
  defines "s2 \<equiv> error_set (Some b) (advance d s1)"
  assumes "a \<noteq> []" and "b \<noteq> []" and "a \<noteq> b" and "error s0 \<noteq> Some a" and "d < 3500"
  shows "error_set (error s0) s0 = s0 \<and>
    timers s1 = [(nextTimerId s0, clock s0 + 3500)] \<and>
    (T < 3500 \<longrightarrow> error (advance T s1) = Some a \<and> autoCleared (advance T s1) = autoCleared s0) \<and>
    (3500 \<le> T \<longrightarrow> error (advance T s1) = None \<and>
       autoCleared (advance T s1) = autoCleared s0 @ [clock s0 + 3500]) \<and>
    timers s2 = [(Suc (nextTimerId s0), clock s0 + d + 3500)] \<and>
    (T < 3500 \<longrightarrow> error (advance T s2) = Some b \<and> autoCleared (advance T s2) = autoCleared s0) \<and>
    (3500 \<le> T \<longrightarrow> error (advance T s2) = None \<and> timers (advance T s2) = [] \<and>
       autoCleared (advance T s2) = autoCleared s0 @ [clock s0 + d + 3500])"
proof -
  have i0: "one_pending s0"
    unfolding s0_def by (rule one_pending_run)
  have ta: "truthy (Some a)" and tb: "truthy (Some b)"
    using assms by (simp_all add: truthy_def)
  have e1: "s1 = s0\<lparr>error := Some a, timers := [(nextTimerId s0, clock s0 + 3500)],
      nextTimerId := Suc (nextTimerId s0), errorTimeout := Some (nextTimerId s0)\<rparr>"
    unfolding s1_def using error_set_truthy [OF i0 ta] assms by simp
  have a1: "advance t s1 =
    (if clock s0 + 3500 \<le> clock s0 + t
     then s1\<lparr>clock := clock s0 + t, timers := [],
        autoCleared := autoCleared s0 @ [clock s0 + 3500], error := None\<rparr>
     else s1\<lparr>clock := clock s0 + t\<rparr>)" for t
    using advance_pending [of s1 "nextTimerId s0" "clock s0 + 3500" t] ta
    by (simp add: e1)
  have i1: "one_pending (advance d s1)"
    unfolding s1_def by (intro one_pending_advance one_pending_error_set i0)
  have d1: "advance d s1 = s1\<lparr>clock := clock s0 + d\<rparr>"
    using \<open>d < 3500\<close> by (simp add: a1)
  have ne: "error (advance d s1) \<noteq> Some b"
    unfolding d1 using \<open>a \<noteq> b\<close> by (simp add: e1)
  have e2: "s2 = s0\<lparr>error := Some b, timers := [(Suc (nextTimerId s0), clock s0 + d + 3500)],
      nextTimerId := Suc (Suc (nextTimerId s0)), errorTimeout := Some (Suc (nextTimerId s0)),
      clock := clock s0 + d\<rparr>"
    unfolding s2_def using error_set_truthy [OF i1 tb ne] unfolding d1 by (simp add: e1)
  have a2: "advance t s2 =
    (if clock s0 + d + 3500 \<le> clock s0 + d + t
     then s2\<lparr>clock := clock s0 + d + t, timers := [],
        autoCleared := autoCleared s0 @ [clock s0 + d + 3500], error := None\<rparr>
     else s2\<lparr>clock := clock s0 + d + t\<rparr>)" for t
    using advance_pending [of s2 "Suc (nextTimerId s0)" "clock s0 + d + 3500" t] tb
    by (simp add: e2)
  have same: "error_set (error s0) s0 = s0"
    by (simp add: error_set_def)
  show ?thesis
    by (simp add: same a1 a2) (simp add: e1 e2)
qed

theorem error_autoclear_restarts_witness:
  "autoCleared (advance 3500 (error_set (Some (js ''offline'')) (advance 1000
      (error_set (Some (js ''denied'')) (run_events []))))) = [4500] \<and>
   autoCleared (advance 3499 (error_set (Some (js ''offline'')) (advance 1000
      (error_set (Some (js ''denied'')) (run_events []))))) = [] \<and>
   timers (error_set (Some (js ''offline'')) (advance 1000
      (error_set (Some (js ''denied'')) (run_events [])))) = [(1, 4500)]"
  using error_autoclear_restarts [of "js ''denied''" "js ''offline''" "[]" 1000 3500]
    error_autoclear_restarts [of "js ''denied''" "js ''offline''" "[]" 1000 3499]
  by (simp add: js_def run_events_def init_error_store_def error_subscriber_def
      clearTimeout_def truthy_def)

text \<open>
  Claim C4 as stated fails when the cell is set to the string it already holds. After
  \<^verbatim>\<open>'denied'\<close> has been shown for 3000 ms, setting \<^verbatim>\<open>'denied'\<close> again leaves the timer of
  the first set pending, due at 3500 ms: the set neither cancels nor restarts it. When
  the cell is then set to \<^verbatim>\<open>'offline'\<close> 1000 ms after that set, there have been two
  automatic clears by the time 7500 ms, the first of them 500 ms after the set of
  \<^verbatim>\<open>'denied'\<close> at 3000 ms.
\<close>

theorem error_autoclear_counterexample:
  "timers (run_events [SetError (Some (js ''denied'')), Elapse 3000]) = [(0, 3500)] \<and>
   clock (run_events [SetError (Some (js ''denied'')), Elapse 3000]) = 3000 \<and>
   timers (run_events [SetError (Some (js ''denied'')), Elapse 3000, SetError (Some (js ''denied''))])
     = [(0, 3500)] \<and>
   autoCleared (run_events [SetError (Some (js ''denied'')), Elapse 3000, SetError (Some (js ''denied'')),
      Elapse 500]) = [3500] \<and>
   autoCleared (run_events [SetError (Some (js ''denied'')), Elapse 3000, SetError (Some (js ''denied'')),
      Elapse 1000, SetError (Some (js ''offline'')), Elapse 3500]) = [3500, 7500]"
  by (simp add: run_events_def init_error_store_def error_subscriber_def clearTimeout_def
      setTimeout_def error_set_def truthy_def advance_def run_timers.simps fire_def
      timer_callback_def js_def Let_def)

text \<open>
  Claim C9. In a state the module has reached, setting the cell to \<^verbatim>\<open>null\<close> or to the
  empty string leaves no timer pending and schedules none (the timer counter does not
  move); every update of the cell removes the timer that was pending; and the timer's
  callback, when it runs, sets the cell to \<^verbatim>\<open>null\<close>.
\<close>

theorem error_falsy_cancels:
  fixes es :: "event list" and v :: "jsstring option"
  defines "s \<equiv> run_events es"
  assumes "v = None \<or> v = Some []"
  shows "timers (error_set v s) = [] \<and> nextTimerId (error_set v s) = nextTimerId s \<and>
    (\<forall>w. error s \<noteq> w \<longrightarrow> set (timers (error_set w s)) \<inter> set (timers s) = {}) \<and>
    (\<forall>t \<in> set (timers s). error (advance (snd t - clock s) s) = None \<and>
       autoCleared (advance (snd t - clock s) s) = autoCleared s @ [snd t])"
proof -
  have i: "one_pending s"
    unfolding s_def by (rule one_pending_run)
  have f: "\<not> truthy v"
    using assms by (auto simp add: truthy_def)
  from i show ?thesis
  proof (cases rule: one_pending_cases)
    case idle
    then show ?thesis by (simp add: error_set_falsy [OF i f])
  next
    case (pending h due)
    have "error s \<noteq> v"
      using pending(4) f by auto
    moreover have "set (timers (error_set w s)) \<inter> set (timers s) = {}" if "error s \<noteq> w" for w
    proof (cases "truthy w")
      case True
      then show ?thesis using pending by (simp add: error_set_truthy [OF i True that])
    next
      case False
      then show ?thesis using that by (simp add: error_set_falsy [OF i False])
    qed
    ultimately show ?thesis
      using pending by (simp add: error_set_falsy [OF i f] advance_pending [OF pending(1,2,4,3)])
  qed
qed

theorem error_falsy_cancels_witness:
  "timers (error_set (Some (js ''denied'')) (run_events [])) = [(0, 3500)] \<and>
   timers (error_set None (run_events [SetError (Some (js ''denied''))])) = [] \<and>
   timers (error_set (Some []) (run_events [SetError (Some (js ''denied''))])) = [] \<and>
   error (advance 3500 (run_events [SetError (Some (js ''denied''))])) = None"
  using error_falsy_cancels [of None "[SetError (Some (js ''denied''))]"]
    error_falsy_cancels [of "Some []" "[SetError (Some (js ''denied''))]"]
  by (simp add: js_def run_events_def init_error_store_def error_subscriber_def
      clearTimeout_def setTimeout_def error_set_def truthy_def)
section \<open>Properties of the persistent cells\<close>

lemma mirrored_persistent: "mirrored J (persistent J key init b)"
  by (auto simp add: mirrored_def persistent_def persist_subscriber_def setItem_def stored_text_def Let_def
      split: option.splits)

lemma key_persistent: "cell_key (fst (persistent J key init b)) = key"
  by (auto simp add: persistent_def Let_def split: option.splits prod.splits)

lemma mirrored_cell_set: "mirrored J cb \<Longrightarrow> mirrored J (cell_set J v cb)"
  by (cases cb) (auto simp add: mirrored_def cell_set_def persist_subscriber_def setItem_def stored_text_def
      split: option.splits)

lemma key_cell_set: "cell_key (fst (cell_set J v cb)) = cell_key (fst cb)"
  by (cases cb) (simp add: cell_set_def)

lemma value_cell_set: "cell_value (fst (cell_set J v cb)) = v"
  by (cases cb) (auto simp add: cell_set_def safe_not_equal_def)

lemma mirrored_foldl: "mirrored J cb \<Longrightarrow> mirrored J (foldl (\<lambda>cb v. cell_set J v cb) cb vs)"
  by (induction vs arbitrary: cb) (simp_all add: mirrored_cell_set)

lemma key_foldl: "cell_key (fst (foldl (\<lambda>cb v. cell_set J v cb) cb vs)) = cell_key (fst cb)"
  by (induction vs arbitrary: cb) (simp_all add: key_cell_set)

lemma value_foldl:
  "cell_value (fst (foldl (\<lambda>cb v. cell_set J v cb) cb vs)) = (if vs = [] then cell_value (fst cb) else last vs)"
  by (induction vs arbitrary: cb) (simp_all add: value_cell_set)

lemma persistent_value:
  "cell_value (fst (persistent J key init b)) =
     (case localStorage b key of
        None \<Rightarrow> init
      | Some json \<Rightarrow> if json = [] then init else (case JSON_parse J json of Some v \<Rightarrow> v | None \<Rightarrow> init))"
  by (simp add: persistent_def Let_def case_prod_unfold split: option.splits)

lemma persistent_console:
  "consoleErrors (snd (persistent J key init b)) =
     (case localStorage b key of
        None \<Rightarrow> consoleErrors b
      | Some json \<Rightarrow>
          if json = [] then consoleErrors b
          else (case JSON_parse J json of
                  Some v \<Rightarrow> consoleErrors b
                | None \<Rightarrow> consoleErrors b @ [SyntaxError json]))"
  by (simp add: persistent_def Let_def case_prod_unfold persist_subscriber_def setItem_def
      split: option.splits)

text \<open>
  Claim C10, as amended. A persistent cell writes its value to the storage at once when
  it is constructed, whatever the storage held: right after the construction, and after
  any sequence of later \<^verbatim>\<open>set\<close> calls, the slot of the cell's key holds the text that
  \<^verbatim>\<open>setItem\<close> stores for \<^verbatim>\<open>JSON.stringify\<close> of the cell's current value. That is the JSON
  text of the value when \<^verbatim>\<open>JSON.stringify\<close> returns one, and the text \<^verbatim>\<open>undefined\<close> when
  it returns \<^verbatim>\<open>undefined\<close>.
\<close>

theorem persistent_mirrors_storage:
  fixes J :: JSON and b :: browser and key :: jsstring and initialValue :: jsvalue
    and ws :: "jsvalue list"
  defines "built \<equiv> persistent J key initialValue b"
  defines "later \<equiv> foldl (\<lambda>cb w. cell_set J w cb) built ws"
  shows "localStorage (snd built) key = Some (stored_text J (cell_value (fst built))) \<and>
    localStorage (snd later) key = Some (stored_text J (cell_value (fst later))) \<and>
    (JSON_stringify J (cell_value (fst later)) = Some t \<longrightarrow> localStorage (snd later) key = Some t) \<and>
    (JSON_stringify J (cell_value (fst later)) = None \<longrightarrow>
       localStorage (snd later) key = Some (js ''undefined''))"
proof -
  have "mirrored J built"
    unfolding built_def by (rule mirrored_persistent)
  moreover from this have "mirrored J later"
    unfolding later_def by (rule mirrored_foldl)
  moreover have "cell_key (fst built) = key" "cell_key (fst later) = key"
    unfolding later_def built_def by (simp_all only: key_foldl key_persistent)
  ultimately show ?thesis
    by (simp add: mirrored_def stored_text_def)
qed

theorem persistent_mirrors_storage_witness:
  "localStorage (snd (persistent JSON_literals (js ''hasSetupAccount'') (Bool False)
      \<lparr>localStorage = [js ''hasSetupAccount'' \<mapsto> js ''true''], consoleErrors = []\<rparr>))
      (js ''hasSetupAccount'') = Some (js ''true'') \<and>
   localStorage (snd (cell_set JSON_literals (Bool False)
      (persistent JSON_literals (js ''hasSetupAccount'') (Bool False)
         \<lparr>localStorage = [js ''hasSetupAccount'' \<mapsto> js ''true''], consoleErrors = []\<rparr>)))
      (js ''hasSetupAccount'') = Some (js ''false'') \<and>
   localStorage (snd (cell_set JSON_literals Undefined
      (persistent JSON_literals (js ''dataVersion'') (Str (js ''1''))
         \<lparr>localStorage = Map.empty, consoleErrors = []\<rparr>)))
      (js ''dataVersion'') = Some (js ''undefined'')"
proof -
  let ?b = "\<lparr>localStorage = [js ''hasSetupAccount'' \<mapsto> js ''true''], consoleErrors = []\<rparr>"
  let ?e = "\<lparr>localStorage = Map.empty, consoleErrors = []\<rparr>"
  have v: "cell_value (fst (persistent JSON_literals (js ''hasSetupAccount'') (Bool False) ?b)) = Bool True"
    "cell_value (fst (cell_set JSON_literals (Bool False)
       (persistent JSON_literals (js ''hasSetupAccount'') (Bool False) ?b))) = Bool False"
    "cell_value (fst (cell_set JSON_literals Undefined
       (persistent JSON_literals (js ''dataVersion'') (Str (js ''1'')) ?e))) = Undefined"
    by (simp_all add: persistent_value value_cell_set JSON_literals_def js_def)
  have j: "JSON_stringify JSON_literals (Bool True) = Some (js ''true'')"
    "JSON_stringify JSON_literals (Bool False) = Some (js ''false'')"
    "JSON_stringify JSON_literals Undefined = None"
    by (simp_all add: JSON_literals_def)
  from persistent_mirrors_storage [where J = JSON_literals and key = "js ''hasSetupAccount''"
      and initialValue = "Bool False" and b = ?b and ws = "[]" and t = "js ''true''"]
    persistent_mirrors_storage [where J = JSON_literals and key = "js ''hasSetupAccount''"
      and initialValue = "Bool False" and b = ?b and ws = "[Bool False]" and t = "js ''false''"]
    persistent_mirrors_storage [where J = JSON_literals and key = "js ''dataVersion''"
      and initialValue = "Str (js ''1'')" and b = ?e and ws = "[Undefined]"]
  show ?thesis
    by (simp add: v j stored_text_def)
qed

text \<open>
  Claim C10 as stated fails for the application's own cell
  \<^verbatim>\<open>persistent<undefined | string>('dataVersion', undefined)\<close>: constructed over an empty
  storage it holds \<^verbatim>\<open>undefined\<close>, for which \<^verbatim>\<open>JSON.stringify\<close> returns no text, and the
  slot holds the text \<^verbatim>\<open>undefined\<close>, which is not the JSON serialization of any value:
  \<^verbatim>\<open>JSON.parse\<close> refuses it.
\<close>

theorem persistent_mirrors_storage_counterexample:
  "cell_value (fst (persistent JSON_literals (js ''dataVersion'') Undefined
      \<lparr>localStorage = Map.empty, consoleErrors = []\<rparr>)) = Undefined \<and>
   JSON_stringify JSON_literals Undefined = None \<and>
   localStorage (snd (persistent JSON_literals (js ''dataVersion'') Undefined
      \<lparr>localStorage = Map.empty, consoleErrors = []\<rparr>)) (js ''dataVersion'')
     = Some (js ''undefined'') \<and>
   JSON_parse JSON_literals (js ''undefined'') = None"
  by (simp add: persistent_def persist_subscriber_def setItem_def JSON_literals_def js_def)

text \<open>
  Claim C5, as amended. Let \<open>v\<close> be the last value written through a persistent cell for
  \<open>key\<close>, and let the application restart. If \<^verbatim>\<open>JSON.stringify\<close> gives a non-empty text
  for \<open>v\<close> that \<^verbatim>\<open>JSON.parse\<close> reads back as \<open>v\<close>, the new cell's value is \<open>v\<close>. If
  \<^verbatim>\<open>JSON.stringify\<close> gives \<^verbatim>\<open>undefined\<close> for \<open>v\<close> (as it does for \<^verbatim>\<open>undefined\<close>), the slot
  holds the text \<^verbatim>\<open>undefined\<close>, which does not parse: the new cell's value is the
  supplied initial value and the error is logged. A cell constructed over a storage with
  no entry or an empty text for \<open>key\<close> has the initial value and logs nothing; over a
  non-empty text that does not parse it has the initial value and logs the error.
\<close>

theorem persistent_rehydrates:
  fixes J :: JSON and b b2 :: browser and key :: jsstring and ws :: "jsvalue list"
    and v initialValue initialValue' :: jsvalue
  defines "written \<equiv> foldl (\<lambda>cb w. cell_set J w cb) (persistent J key initialValue b) (ws @ [v])"
  defines "reborn \<equiv> persistent J key initialValue' (store_restart (snd written))"
  defines "fresh \<equiv> persistent J key initialValue b2"
  shows "(JSON_stringify J v = Some t \<and> t \<noteq> [] \<and> JSON_parse J t = Some v \<longrightarrow>
       cell_value (fst reborn) = v) \<and>
    (JSON_stringify J v = None \<and> JSON_parse J (js ''undefined'') = None \<longrightarrow>
       cell_value (fst reborn) = initialValue' \<and>
       consoleErrors (snd reborn) = [SyntaxError (js ''undefined'')]) \<and>
    (localStorage b2 key = None \<or> localStorage b2 key = Some [] \<longrightarrow>
       cell_value (fst fresh) = initialValue \<and> consoleErrors (snd fresh) = consoleErrors b2) \<and>
    (localStorage b2 key = Some t2 \<and> t2 \<noteq> [] \<and> JSON_parse J t2 = None \<longrightarrow>
       cell_value (fst fresh) = initialValue \<and>
       consoleErrors (snd fresh) = consoleErrors b2 @ [SyntaxError t2])"
proof -
  have m: "mirrored J written"
    unfolding written_def by (intro mirrored_foldl mirrored_persistent)
  have k: "cell_key (fst written) = key"
    unfolding written_def by (simp only: key_foldl key_persistent)
  have w: "cell_value (fst written) = v"
    unfolding written_def by (simp add: value_cell_set)
  have slot: "localStorage (snd written) key = Some (stored_text J v)"
    using m by (simp add: mirrored_def k w)
  have u: "js ''undefined'' \<noteq> []"
    by (simp add: js_def)
  show ?thesis
    unfolding reborn_def fresh_def
    by (auto simp add: persistent_value persistent_console slot stored_text_def u store_restart_def)
qed

theorem persistent_rehydrates_witness:
  "cell_value (fst (persistent JSON_literals (js ''hasSetupAccount'') (Bool False)
      (store_restart (snd (cell_set JSON_literals (Bool True)
         (persistent JSON_literals (js ''hasSetupAccount'') (Bool False)
            \<lparr>localStorage = Map.empty, consoleErrors = []\<rparr>)))))) = Bool True \<and>
   cell_value (fst (persistent JSON_literals (js ''hasSetupAccount'') (Bool False)
      \<lparr>localStorage = [js ''hasSetupAccount'' \<mapsto> js ''{oops''], consoleErrors = []\<rparr>)) = Bool False \<and>
   consoleErrors (snd (persistent JSON_literals (js ''hasSetupAccount'') (Bool False)
      \<lparr>localStorage = [js ''hasSetupAccount'' \<mapsto> js ''{oops''], consoleErrors = []\<rparr>))
     = [SyntaxError (js ''{oops'')]"
proof -
  have h: "JSON_stringify JSON_literals (Bool True) = Some (js ''true'')" "js ''true'' \<noteq> []"
    "JSON_parse JSON_literals (js ''true'') = Some (Bool True)"
    "js ''{oops'' \<noteq> []" "JSON_parse JSON_literals (js ''{oops'') = None"
    by (simp_all add: JSON_literals_def js_def)
  show ?thesis
    using persistent_rehydrates [where J = JSON_literals and v = "Bool True" and t = "js ''true''"
      and key = "js ''hasSetupAccount''" and initialValue = "Bool False" and initialValue' = "Bool False"
      and b = "\<lparr>localStorage = Map.empty, consoleErrors = []\<rparr>" and ws = "[]"
      and ?b2.0 = "\<lparr>localStorage = [js ''hasSetupAccount'' \<mapsto> js ''{oops''], consoleErrors = []\<rparr>"
      and ?t2.0 = "js ''{oops''"] h
    by simp
qed

text \<open>
  The claim as stated fails for \<open>v\<close> = \<^verbatim>\<open>undefined\<close>: a cell
  \<^verbatim>\<open>persistent<undefined | string>('dataVersion', '1')\<close> that is set to \<^verbatim>\<open>undefined\<close>
  stores the text \<^verbatim>\<open>undefined\<close>, and after the restart the new cell holds \<^verbatim>\<open>'1'\<close>.
\<close>

theorem persistent_roundtrip_counterexample:
  "localStorage (snd (cell_set JSON_literals Undefined
      (persistent JSON_literals (js ''dataVersion'') (Str (js ''1''))
         \<lparr>localStorage = Map.empty, consoleErrors = []\<rparr>))) (js ''dataVersion'')
     = Some (js ''undefined'') \<and>
   cell_value (fst (persistent JSON_literals (js ''dataVersion'') (Str (js ''1''))
      (store_restart (snd (cell_set JSON_literals Undefined
         (persistent JSON_literals (js ''dataVersion'') (Str (js ''1''))
            \<lparr>localStorage = Map.empty, consoleErrors = []\<rparr>)))))) = Str (js ''1'')"
  by (simp add: persistent_def cell_set_def safe_not_equal_def persist_subscriber_def setItem_def
      store_restart_def JSON_literals_def plain_def quote_def js_def)

section \<open>Properties of the identity service\<close>

text \<open>
  Claim C3. \<open>retrieveIdentity\<close> and \<open>retrieveCredential\<close> always resolve and never reject.
  When the keychain's \<^verbatim>\<open>get\<close> rejects, and when it resolves with a text that
  \<^verbatim>\<open>JSON.parse\<close> refuses, they resolve to \<^verbatim>\<open>null\<close>; \<open>retrieveIdentity\<close> of
  \<^verbatim>\<open>'missing-key'\<close> against the empty keychain resolves to \<^verbatim>\<open>null\<close>.
\<close>

theorem retrieve_failure_resolves_null:
  fixes kc :: keychain_store and requested :: "jsstring option"
  defines "ident \<equiv> (case requested of None \<Rightarrow> js ''did'' | Some i \<Rightarrow> i)"
  shows "(\<exists>v. retrieveIdentity J kc requested = Resolved v) \<and>
    (\<exists>v. retrieveCredential J kc credentialId = Resolved v) \<and>
    (Keychain_get kc ident = Rejected e \<longrightarrow> retrieveIdentity J kc requested = Resolved Null) \<and>
    (Keychain_get kc ident = Resolved t \<and> JSON_parse J t = None \<longrightarrow>
       retrieveIdentity J kc requested = Resolved Null) \<and>
    (Keychain_get kc credentialId = Rejected e \<longrightarrow> retrieveCredential J kc credentialId = Resolved Null) \<and>
    (Keychain_get kc credentialId = Resolved t \<and> JSON_parse J t = None \<longrightarrow>
       retrieveCredential J kc credentialId = Resolved Null) \<and>
    retrieveIdentity J Map.empty (Some (js ''missing-key'')) = Resolved Null"
  by (auto simp add: ident_def retrieveIdentity_def retrieveCredential_def Keychain_get_def
      then_promise_def catch_promise_def parse_def split: option.splits)

theorem retrieve_failure_resolves_null_witness:
  "Keychain_get [js ''did'' \<mapsto> js ''{oops''] (js ''did'') = Resolved (js ''{oops'') \<and>
   JSON_parse JSON_literals (js ''{oops'') = None \<and>
   retrieveIdentity JSON_literals [js ''did'' \<mapsto> js ''{oops''] None = Resolved Null \<and>
   Keychain_get [js ''did'' \<mapsto> js ''{oops''] (js ''visa'') = Rejected (KeyNotFound (js ''visa'')) \<and>
   retrieveCredential JSON_literals [js ''did'' \<mapsto> js ''{oops''] (js ''visa'') = Resolved Null"
  using retrieve_failure_resolves_null [of JSON_literals "[js ''did'' \<mapsto> js ''{oops'']" None "js ''visa''"
      "KeyNotFound (js ''visa'')" "js ''{oops''"]
  by (simp add: Keychain_get_def JSON_literals_def js_def)

lemma clone_entry_refs:
  "clone_entry n e = (e', n') \<Longrightarrow>
     n < n' \<and> ref e' = n \<and> (\<forall>r \<in> set (entry_refs e'). n \<le> r \<and> r < n') \<and> entry_equal e' e"
  by (auto simp add: clone_entry_def entry_refs_def entry_equal_def split: option.splits)

lemma clone_props_refs:
  "clone_props n ps = (ps', n') \<Longrightarrow>
     n \<le> n' \<and> (\<forall>r \<in> set (concat (map (entry_refs \<circ> snd) ps')). n \<le> r \<and> r < n') \<and>
     list_all2 (\<lambda>p q. fst p = fst q \<and> entry_equal (snd p) (snd q)) ps' ps"
proof (induction ps arbitrary: n ps' n')
  case Nil
  then show ?case by simp
next
  case (Cons p ps)
  obtain k e where p: "p = (k, e)" by (cases p)
  obtain e1 n1 where c1: "clone_entry n e = (e1, n1)" by (cases "clone_entry n e")
  obtain ps1 n2 where c2: "clone_props n1 ps = (ps1, n2)" by (cases "clone_props n1 ps")
  from Cons.prems have r: "ps' = (k, e1) # ps1" "n' = n2"
    by (simp_all add: p c1 c2)
  note h1 = clone_entry_refs [OF c1] and h2 = Cons.IH [OF c2]
  show ?case
    unfolding r using h1 h2 by (fastforce simp add: p)
qed

lemma cloneDeep_fresh:
  assumes "cloneDeep n t = (t', n')"
  shows "ref t' = n \<and> n < n' \<and> (\<forall>r \<in> set (refs_of t'). n \<le> r \<and> r < n') \<and> deep_equal t' t"
proof -
  obtain ps where c: "clone_props (Suc n) (content t) = (ps, n')" and t': "t' = \<lparr>ref = n, content = ps\<rparr>"
    using assms by (auto simp add: cloneDeep_def split: prod.splits)
  from clone_props_refs [OF c] show ?thesis
    by (fastforce simp add: t' refs_of_def deep_equal_def)
qed

lemma cloneDeep_default:
  "cloneDeep n defaultCredentials =
     (\<lparr>ref = n, content =
       [(personal, fresh_entry (n + 1) ''Home Office'' ''My Identity''),
        (immunity, fresh_entry (n + 2) ''Public Health Authority'' ''Health Certificate''),
        (visa, fresh_entry (n + 3) ''Foreign Border Agency'' ''Travel Visa''),
        (company, fresh_entry (n + 4) ''Company House'' ''Business Details''),
        (bank, fresh_entry (n + 5) ''SNS Bank'' ''Bank details''),
        (insurance, fresh_entry (n + 6) ''Insurance'' ''Insurance details''),
        (futureCommitment, fresh_entry (n + 7) ''The Far Future Foundation'' ''Future Commitment''),
        (presentCommitment, fresh_entry (n + 8) ''The Now Foundation'' ''Present Commitment'')]\<rparr>,
      n + 9)"
  by (simp add: cloneDeep_def defaultCredentials_def fresh_entry_def clone_entry_def)

lemma hasSetupAccount_set_fields:
  "cell_value (hasSetupAccount (hasSetupAccount_set J v s)) = v"
  "dataVersion (hasSetupAccount_set J v s) = dataVersion s"
  "credentials (hasSetupAccount_set J v s) = credentials s"
  "keychain (hasSetupAccount_set J v s) = keychain s"
  "nextRef (hasSetupAccount_set J v s) = nextRef s"
  by (auto simp add: hasSetupAccount_set_def cell_set_def safe_not_equal_def persist_subscriber_def setItem_def)

lemma dataVersion_set_fields:
  "cell_value (dataVersion (dataVersion_set J v s)) = v"
  "hasSetupAccount (dataVersion_set J v s) = hasSetupAccount s"
  "credentials (dataVersion_set J v s) = credentials s"
  "keychain (dataVersion_set J v s) = keychain s"
  "nextRef (dataVersion_set J v s) = nextRef s"
  by (auto simp add: dataVersion_set_def cell_set_def safe_not_equal_def persist_subscriber_def setItem_def)

lemma init_store_fields:
  "nextRef (init_store J disk kc) = 18"
  "credentials (init_store J disk kc) = fst (cloneDeep 9 defaultCredentials)"
  "keychain (init_store J disk kc) = kc"
  by (simp_all add: init_store_def Let_def cloneDeep_default case_prod_unfold)

text \<open>
  Claim C2. After \<open>clearIdentity\<close>, from a state whose objects all lie below the next free
  address: the onboarding flag is \<^verbatim>\<open>false\<close>, the data version is \<^verbatim>\<open>undefined\<close>, the
  credential table is deep-equal to the default table, with the eight keys in their
  order and \<^verbatim>\<open>data: null\<close> in every entry; the table is not the default object and not
  the table held before, and shares no object with either; the keychain is empty and
  the returned promise resolves.
\<close>

theorem clearIdentity_resets:
  fixes J :: JSON and s :: app_state
  defines "r \<equiv> clearIdentity J s"
  assumes "\<forall>x \<in> set (refs_of (credentials s)) \<union> set (refs_of defaultCredentials). x < nextRef s"
  shows "cell_value (hasSetupAccount (snd r)) = Bool False \<and>
    cell_value (dataVersion (snd r)) = Undefined \<and>
    deep_equal (credentials (snd r)) defaultCredentials \<and>
    map fst (content (credentials (snd r))) =
      [personal, immunity, visa, company, bank, insurance, futureCommitment, presentCommitment] \<and>
    list_all (\<lambda>p. data (content (snd p)) = None) (content (credentials (snd r))) \<and>
    ref (credentials (snd r)) \<noteq> ref defaultCredentials \<and>
    ref (credentials (snd r)) \<noteq> ref (credentials s) \<and>
    set (refs_of (credentials (snd r))) \<inter>
      (set (refs_of (credentials s)) \<union> set (refs_of defaultCredentials)) = {} \<and>
    keychain (snd r) = Map.empty \<and>
    fst r = Resolved True"
proof -
  let ?n = "nextRef s"
  obtain t where c: "cloneDeep ?n defaultCredentials = (t, ?n + 9)"
    by (simp add: cloneDeep_default)
  have r: "r = (Resolved True,
      (dataVersion_set J Undefined (hasSetupAccount_set J (Bool False) s))
        \<lparr>nextRef := ?n + 9, credentials := t, keychain := Map.empty\<rparr>)"
    by (simp add: r_def clearIdentity_def Let_def hasSetupAccount_set_fields dataVersion_set_fields c
        credentials_set_def Keychain_clear_def)
  note f = cloneDeep_fresh [OF c]
  have old: "ref (credentials s) < ?n" "ref defaultCredentials < ?n"
    using assms(2) by (simp_all add: refs_of_def)
  have disj: "set (refs_of t) \<inter> (set (refs_of (credentials s)) \<union> set (refs_of defaultCredentials)) = {}"
  proof -
    have False if "x \<in> set (refs_of t)"
      and "x \<in> set (refs_of (credentials s)) \<union> set (refs_of defaultCredentials)" for x
    proof -
      from that(1) f have "nextRef s \<le> x" by blast
      moreover from that(2) assms(2) have "x < nextRef s" by blast
      ultimately show False by simp
    qed
    then show ?thesis by blast
  qed
  have shape: "map fst (content t) =
      [personal, immunity, visa, company, bank, insurance, futureCommitment, presentCommitment]"
    "list_all (\<lambda>p. data (content (snd p)) = None) (content t)"
    using c by (auto simp add: cloneDeep_default fresh_entry_def)
  show ?thesis
    using f old disj shape by (simp add: r hasSetupAccount_set_fields dataVersion_set_fields)
qed

theorem clearIdentity_resets_witness:
  "cell_value (hasSetupAccount (snd (clearIdentity JSON_literals
      (hasSetupAccount_set JSON_literals (Bool True) (init_store JSON_literals Map.empty [js ''did'' \<mapsto> js ''{}''])))))
     = Bool False \<and>
   ref (credentials (snd (clearIdentity JSON_literals
      (hasSetupAccount_set JSON_literals (Bool True) (init_store JSON_literals Map.empty [js ''did'' \<mapsto> js ''{}''])))))
     = 18 \<and>
   ref (credentials (init_store JSON_literals Map.empty [js ''did'' \<mapsto> js ''{}''])) = 9 \<and>
   keychain (snd (clearIdentity JSON_literals
      (hasSetupAccount_set JSON_literals (Bool True) (init_store JSON_literals Map.empty [js ''did'' \<mapsto> js ''{}''])))) = Map.empty"
proof -
  let ?s = "hasSetupAccount_set JSON_literals (Bool True) (init_store JSON_literals Map.empty [js ''did'' \<mapsto> js ''{}''])"
  have i: "credentials ?s = fst (cloneDeep 9 defaultCredentials)" "nextRef ?s = 18"
    by (simp_all add: hasSetupAccount_set_fields init_store_fields)
  have c: "cloneDeep 9 defaultCredentials = (fst (cloneDeep 9 defaultCredentials), 18)"
    by (simp add: cloneDeep_default)
  have d: "\<forall>x \<in> set (refs_of defaultCredentials). x < 18"
    by (simp add: refs_of_def entry_refs_def fresh_entry_def defaultCredentials_def)
  have h: "\<forall>x \<in> set (refs_of (credentials ?s)) \<union> set (refs_of defaultCredentials). x < nextRef ?s"
    unfolding i using cloneDeep_fresh [OF c] d by auto
  have n: "ref (credentials (snd (clearIdentity JSON_literals ?s))) = 18"
    by (simp add: clearIdentity_def Let_def hasSetupAccount_set_fields dataVersion_set_fields init_store_fields
        cloneDeep_default credentials_set_def Keychain_clear_def)
  have k: "ref (credentials (init_store JSON_literals Map.empty [js ''did'' \<mapsto> js ''{}''])) = 9"
    by (simp add: init_store_fields cloneDeep_default)
  from clearIdentity_resets [OF h, of JSON_literals]
  have "cell_value (hasSetupAccount (snd (clearIdentity JSON_literals ?s))) = Bool False"
    and "keychain (snd (clearIdentity JSON_literals ?s)) = Map.empty"
    by blast+
  with n k show ?thesis
    by blast
qed

section \<open>Properties of the hexadecimal text and of \<open>split\<close>\<close>

lemma below_16_cases:
  fixes n :: nat
  assumes "n < 16"
  shows "n \<in> {0, 1, 2, 3, 4, 5, 6, 7, 8, 9, 10, 11, 12, 13, 14, 15}"
  using assms by simp arith

lemma hex_value_digit: "n < 16 \<Longrightarrow> hex_value (hex_digit n) = Some n"
  by (drule below_16_cases) (auto simp add: hex_value_def hex_digit_def js_def)

lemma hex_digit_not_colon: "n < 16 \<Longrightarrow> hex_digit n \<noteq> of_char CHR '':''"
  by (drule below_16_cases) (auto simp add: hex_digit_def js_def)

lemma toString16_digit: "n < 16 \<Longrightarrow> toString16 n = [hex_digit n]"
  by (subst toString16.simps) simp

lemma uint_byte_parts:
  fixes b :: byte
  shows "nat (drop_bit 4 (uint b)) = unat b div 16" "nat (uint b AND 0xf) = unat b mod 16"
proof -
  show "nat (drop_bit 4 (uint b)) = unat b div 16"
    by (simp add: drop_bit_eq_div nat_div_distrib)
  have "uint b AND mask 4 = uint b mod 2 ^ 4"
    by (simp only: take_bit_eq_mask [symmetric] take_bit_eq_mod)
  then have "uint b AND 0xf = uint b mod 16"
    by (simp add: mask_eq_exp_minus_1)
  then show "nat (uint b AND 0xf) = unat b mod 16"
    by (simp add: nat_mod_distrib)
qed

lemma byte_less: "unat (b :: byte) < 256"
  using unsigned_less [of b] by simp

lemma convertByteArrayToHex_eq: "convertByteArrayToHex bytes = Buffer_toString_hex bytes"
proof (induction bytes)
  case Nil
  then show ?case by (simp add: convertByteArrayToHex_def Buffer_toString_hex_def)
next
  case (Cons b bytes)
  have "unat b div 16 < 16"
    using byte_less [of b] by simp
  then show ?case
    using Cons
    by (simp add: convertByteArrayToHex_def Buffer_toString_hex_def uint_byte_parts toString16_digit Let_def)
qed

lemma Buffer_from_hex_toString: "Buffer_from_hex (Buffer_toString_hex buf) = buf"
proof (induction buf)
  case Nil
  then show ?case by (simp add: Buffer_toString_hex_def)
next
  case (Cons b buf)
  have "unat b div 16 < 16"
    using byte_less [of b] by simp
  moreover have "(of_nat (unat b div 16 * 16 + unat b mod 16) :: byte) = b"
    by simp
  ultimately show ?case
    using Cons by (simp add: Buffer_toString_hex_def hex_value_digit)
qed

lemma colon_not_in_hex: "of_char CHR '':'' \<notin> set (Buffer_toString_hex buf)"
proof -
  have "unat b div 16 < 16" for b :: byte
    using byte_less [of b] by simp
  then show ?thesis
    using hex_digit_not_colon by (auto simp add: Buffer_toString_hex_def)
qed

lemma split_from_none: "sep \<notin> set xs \<Longrightarrow> split_from sep part xs = [part @ xs]"
  by (induction xs arbitrary: part) auto

lemma split_from_first:
  "sep \<notin> set xs \<Longrightarrow> split_from sep part (xs @ sep # ys) = (part @ xs) # split_from sep [] ys"
  by (induction xs arbitrary: part) auto

lemma split_hex_pair:
  "split (of_char CHR '':'') (Buffer_toString_hex a @ js '':'' @ Buffer_toString_hex b)
     = [Buffer_toString_hex a, Buffer_toString_hex b]"
proof -
  have "js '':'' = [of_char CHR '':'']"
    by (simp add: js_def)
  then show ?thesis
    by (simp add: split_def split_from_first split_from_none colon_not_in_hex del: of_char_Char)
qed

section \<open>Properties of the cipher in CBC mode\<close>

lemma length_xor_bytes: "length (xor_bytes a b) = min (length a) (length b)"
  by (simp add: xor_bytes_def)

lemma xor_bytes_cancel: "length a = length b \<Longrightarrow> xor_bytes (xor_bytes a b) b = a"
  by (induction a b rule: list_induct2) (simp_all add: xor_bytes_def xor.assoc)

lemma unpad_pad:
  assumes "length block + n = 16" "0 < n"
  shows "unpad (block @ replicate n (of_nat n)) = Inr block"
proof -
  have n: "n \<le> 16" "unat (of_nat n :: byte) = n"
    using assms by (simp_all add: unat_of_nat)
  have l: "(block @ replicate n (of_nat n :: byte)) ! 15 = of_nat n"
    using assms by (simp add: nth_append)
  have "(block @ replicate n (of_nat n :: byte)) ! (i + (16 - n)) = of_nat n" if "i < n" for i
  proof -
    have "\<not> i + (16 - n) < length block" "i + (16 - n) - length block = i"
      using assms that by simp_all
    then show ?thesis
      using that by (simp only: nth_append if_False nth_replicate)
  qed
  then have "\<not> list_ex (\<lambda>i. (block @ replicate n (of_nat n :: byte)) ! (i + (16 - n)) \<noteq> of_nat n) [0..<n]"
    by (simp add: list_ex_iff)
  then show ?thesis
    using assms n by (simp add: unpad_def l Let_def)
qed

lemma encrypt_bytes_rec:
  "encrypt_bytes A k iv input =
     (if 15 < length input
      then (let out = encryptBlock A k (xor_bytes (take 16 input) iv)
            in out @ encrypt_bytes A k out (drop 16 input))
      else encryptBlock A k
             (xor_bytes (input @ replicate (16 - length input) (of_nat (16 - length input))) iv))"
  unfolding encrypt_bytes_def cipher_update_def
  by (subst encrypt_chunks.simps) (simp add: Let_def case_prod_unfold cipher_final_def encrypt_chunks.simps [of A "\<lparr>cipher_key = k, prev = iv, cache = input\<rparr>"])

lemma decrypt_bytes_rec:
  "decrypt_bytes A k iv input =
     (if 16 < length input
      then (case decrypt_bytes A k (take 16 input) (drop 16 input) of
              Inl e \<Rightarrow> Inl e
            | Inr rest \<Rightarrow> Inr (xor_bytes (decryptBlock A k (take 16 input)) iv @ rest))
      else if length input \<noteq> 16 then Inl WrongFinalBlockLength
      else unpad (xor_bytes (decryptBlock A k input) iv))"
  unfolding decrypt_bytes_def decipher_update_def
  by (subst decrypt_chunks.simps)
     (simp add: Let_def case_prod_unfold decipher_final_def
        decrypt_chunks.simps [of A "\<lparr>cipher_key = k, prev = iv, cache = input\<rparr>"] split: sum.splits)

lemma length_encrypt_bytes:
  assumes "cipher_ok A k"
  shows "length iv = 16 \<Longrightarrow> 16 \<le> length (encrypt_bytes A k iv input)"
proof (induction "length input" arbitrary: input iv rule: less_induct)
  case less
  show ?case
  proof (cases "15 < length input")
    case True
    then have "length (xor_bytes (take 16 input) iv) = 16"
      using less.prems by (simp add: length_xor_bytes)
    with assms have "length (encryptBlock A k (xor_bytes (take 16 input) iv)) = 16"
      by (simp add: cipher_ok_def)
    with True show ?thesis
      by (subst encrypt_bytes_rec) (simp add: Let_def)
  next
    case False
    then have "length (xor_bytes (input @ replicate (16 - length input) (of_nat (16 - length input))) iv) = 16"
      using less.prems by (simp add: length_xor_bytes)
    with assms False show ?thesis
      by (subst encrypt_bytes_rec) (simp add: cipher_ok_def)
  qed
qed

lemma decrypt_encrypt_bytes:
  assumes "cipher_ok A k"
  shows "length iv = 16 \<Longrightarrow> decrypt_bytes A k iv (encrypt_bytes A k iv input) = Inr input"
proof (induction "length input" arbitrary: input iv rule: less_induct)
  case less
  show ?case
  proof (cases "15 < length input")
    case True
    define x where "x = xor_bytes (take 16 input) iv"
    define out where "out = encryptBlock A k x"
    have lx: "length x = 16"
      using True less.prems by (simp add: x_def length_xor_bytes)
    then have lo: "length out = 16" and inv: "decryptBlock A k out = x"
      using assms by (simp_all add: out_def cipher_ok_def)
    have e: "encrypt_bytes A k iv input = out @ encrypt_bytes A k out (drop 16 input)"
      using True by (subst encrypt_bytes_rec) (simp add: Let_def out_def x_def)
    have "16 \<le> length (encrypt_bytes A k out (drop 16 input))"
      using assms lo by (rule length_encrypt_bytes)
    then have ne: "encrypt_bytes A k out (drop 16 input) \<noteq> []"
      by auto
    then have long: "16 < length (out @ encrypt_bytes A k out (drop 16 input))"
      using lo by simp
    have ih: "decrypt_bytes A k out (encrypt_bytes A k out (drop 16 input)) = Inr (drop 16 input)"
      using True lo by (intro less.hyps) simp_all
    have "xor_bytes x iv = take 16 input"
      unfolding x_def using True less.prems by (intro xor_bytes_cancel) simp
    then show ?thesis
      unfolding e
      by (subst decrypt_bytes_rec) (simp add: ne lo inv ih)
  next
    case False
    define n where "n = 16 - length input"
    define x where "x = xor_bytes (input @ replicate n (of_nat n)) iv"
    have n: "length input + n = 16" "0 < n"
      using False by (simp_all add: n_def)
    have lx: "length x = 16"
      using n less.prems by (simp add: x_def length_xor_bytes)
    then have lo: "length (encryptBlock A k x) = 16" and inv: "decryptBlock A k (encryptBlock A k x) = x"
      using assms by (simp_all add: cipher_ok_def)
    have e: "encrypt_bytes A k iv input = encryptBlock A k x"
      using False by (subst encrypt_bytes_rec) (simp add: x_def n_def)
    have "xor_bytes x iv = input @ replicate n (of_nat n)"
      unfolding x_def using n less.prems by (intro xor_bytes_cancel) simp
    then show ?thesis
      unfolding e
      by (subst decrypt_bytes_rec) (simp add: lo inv unpad_pad [OF n])
  qed
qed






section \<open>Properties of UTF-8\<close>

lemma unat_byte_of_nat: "n < 256 \<Longrightarrow> unat (of_nat n :: byte) = n"
  by (simp add: unat_of_nat)

lemma unat_unit_of_nat: "n < 65536 \<Longrightarrow> unat (of_nat n :: 16 word) = n"
  by (simp add: unat_of_nat)

lemma unit_less: "unat (u :: 16 word) < 65536"
  using unsigned_less [of u] by simp

lemma mod_shifted: "q < m \<Longrightarrow> (k * m + q) mod m = (q :: nat)"
  by simp

lemma split_two: "(c :: nat) div 64 * 64 + c mod 64 = c"
  by simp

lemma split_three: "(c :: nat) div 4096 * 4096 + c div 64 mod 64 * 64 + c mod 64 = c"
proof -
  have "c div 4096 = c div 64 div 64"
    using div_mult2_eq [of c 64 64] by simp
  moreover have "c div 64 div 64 * 4096 = c div 64 div 64 * 64 * 64"
    by simp
  ultimately have "c div 4096 * 4096 + c div 64 mod 64 * 64 = (c div 64 div 64 * 64 + c div 64 mod 64) * 64"
    by (simp only: add_mult_distrib)
  then show ?thesis
    by (simp only: div_mult_mod_eq)
qed

lemma split_four:
  "(c :: nat) div 262144 * 262144 + c div 4096 mod 64 * 4096 + c div 64 mod 64 * 64 + c mod 64 = c"
proof -
  have "c div 262144 = c div 64 div 4096" "c div 4096 mod 64 = c div 64 div 64 mod 64"
    using div_mult2_eq [of c 64 4096] div_mult2_eq [of c 64 64] by simp_all
  moreover have "c div 64 div 4096 * 262144 = c div 64 div 4096 * 4096 * 64"
    "c div 64 div 64 mod 64 * 4096 = c div 64 div 64 mod 64 * 64 * 64"
    by simp_all
  ultimately have "c div 262144 * 262144 + c div 4096 mod 64 * 4096 + c div 64 mod 64 * 64
      = (c div 64 div 4096 * 4096 + c div 64 div 64 mod 64 * 64 + c div 64 mod 64) * 64"
    by (simp only: add_mult_distrib)
  then show ?thesis
    by (simp only: split_three div_mult_mod_eq)
qed

lemma slice_one:
  assumes "c < 0x80"
  shows "utf8Slice (encode_cp c @ bs) = code_units c @ utf8Slice bs"
  using assms
  by (simp add: encode_cp_def unat_byte_of_nat bytesPerSequence_def code_units_def)

lemma slice_two:
  assumes "0x80 \<le> c" "c < 0x800"
  shows "utf8Slice (encode_cp c @ bs) = code_units c @ utf8Slice bs"
proof -
  define b1 b2 where "b1 = 0xC0 + c div 64" and "b2 = 0x80 + c mod 64"
  have r: "b1 < 256" "b2 < 256" "0xBF < b1" "b1 \<le> 0xDF" "0x80 \<le> b2" "b2 \<le> 0xBF"
    using assms by (simp_all add: b1_def b2_def)
  have "b1 mod 32 = c div 64" "b2 mod 64 = c mod 64"
    using assms mod_shifted [of "c div 64" 32 6] mod_shifted [of "c mod 64" 64 2]
    by (simp_all add: b1_def b2_def)
  then have cp: "b1 mod 32 * 64 + b2 mod 64 = c"
    by (simp only: split_two)
  have e: "encode_cp c = [of_nat b1, of_nat b2]"
    using assms by (simp add: encode_cp_def b1_def b2_def)
  show ?thesis
    unfolding e using r assms
    by (simp add: unat_byte_of_nat bytesPerSequence_def continuation_def cp code_units_def)
qed

lemma slice_three:
  assumes "0x800 \<le> c" "c < 0x10000" "c < 0xD800 \<or> 0xDFFF < c"
  shows "utf8Slice (encode_cp c @ bs) = code_units c @ utf8Slice bs"
proof -
  define b1 b2 b3 where "b1 = 0xE0 + c div 4096" and "b2 = 0x80 + c div 64 mod 64"
    and "b3 = 0x80 + c mod 64"
  have r: "b1 < 256" "b2 < 256" "b3 < 256" "0xDF < b1" "b1 \<le> 0xEF" "0x80 \<le> b2" "b2 \<le> 0xBF"
    "0x80 \<le> b3" "b3 \<le> 0xBF"
    using assms(1,2) by (simp_all add: b1_def b2_def b3_def)
  have "b1 mod 16 = c div 4096" "b2 mod 64 = c div 64 mod 64" "b3 mod 64 = c mod 64"
    using assms(1,2) mod_shifted [of "c div 4096" 16 14] mod_shifted [of "c div 64 mod 64" 64 2]
      mod_shifted [of "c mod 64" 64 2]
    by (simp_all add: b1_def b2_def b3_def)
  then have cp: "b1 mod 16 * 4096 + b2 mod 64 * 64 + b3 mod 64 = c"
    by (simp only: split_three)
  have e: "encode_cp c = [of_nat b1, of_nat b2, of_nat b3]"
    using assms by (simp add: encode_cp_def b1_def b2_def b3_def)
  show ?thesis
    unfolding e using r assms
    by (simp add: unat_byte_of_nat bytesPerSequence_def continuation_def cp code_units_def)
qed

lemma slice_four:
  assumes "0x10000 \<le> c" "c < 0x110000"
  shows "utf8Slice (encode_cp c @ bs) = code_units c @ utf8Slice bs"
proof -
  define b1 b2 b3 b4 where "b1 = 0xF0 + c div 262144" and "b2 = 0x80 + c div 4096 mod 64"
    and "b3 = 0x80 + c div 64 mod 64" and "b4 = 0x80 + c mod 64"
  have r: "b1 < 256" "b2 < 256" "b3 < 256" "b4 < 256" "0xEF < b1" "0x80 \<le> b2" "b2 \<le> 0xBF"
    "0x80 \<le> b3" "b3 \<le> 0xBF" "0x80 \<le> b4" "b4 \<le> 0xBF"
    using assms by (simp_all add: b1_def b2_def b3_def b4_def)
  have "c div 262144 < 16"
    using assms by (intro less_mult_imp_div_less) simp
  then have "b1 mod 16 = c div 262144" "b2 mod 64 = c div 4096 mod 64" "b3 mod 64 = c div 64 mod 64"
    "b4 mod 64 = c mod 64"
    using assms mod_shifted [of "c div 262144" 16 15] mod_shifted [of "c div 4096 mod 64" 64 2]
      mod_shifted [of "c div 64 mod 64" 64 2] mod_shifted [of "c mod 64" 64 2]
    by (simp_all add: b1_def b2_def b3_def b4_def)
  then have cp: "b1 mod 16 * 262144 + b2 mod 64 * 4096 + b3 mod 64 * 64 + b4 mod 64 = c"
    by (simp only: split_four)
  have e: "encode_cp c = [of_nat b1, of_nat b2, of_nat b3, of_nat b4]"
    using assms by (simp add: encode_cp_def b1_def b2_def b3_def b4_def)
  show ?thesis
    unfolding e using r assms
    by (simp add: unat_byte_of_nat bytesPerSequence_def continuation_def cp)
qed

lemma slice_encode_cp:
  assumes "c < 0x110000" "c < 0xD800 \<or> 0xDFFF < c"
  shows "utf8Slice (encode_cp c @ bs) = code_units c @ utf8Slice bs"
proof -
  consider "c < 0x80" | "0x80 \<le> c" "c < 0x800" | "0x800 \<le> c" "c < 0x10000" | "0x10000 \<le> c"
    by linarith
  then show ?thesis
    using assms by cases (simp_all add: slice_one slice_two slice_three slice_four)
qed

lemma utf8_round_trip: "well_formed s \<Longrightarrow> utf8Slice (utf8ToBytes s) = s"
proof (induction s rule: well_formed.induct)
  case 1
  then show ?case by simp
next
  case (2 u us)
  show ?case
  proof (cases "is_lead (unat u)")
    case True
    with "2.prems" obtain v vs where us: "us = v # vs" and v: "is_trail (unat v)" and w: "well_formed vs"
      by (cases us) auto
    define hi lo where "hi = unat u - 0xD800" and "lo = unat v - 0xDC00"
    define c where "c = 0x10000 + hi * 1024 + lo"
    have hl: "hi < 1024" "lo < 1024" "0xD800 + hi = unat u" "0xDC00 + lo = unat v"
      using True v unfolding hi_def lo_def is_lead_def is_trail_def by arith+
    have "hi * 1024 \<le> 1023 * 1024"
      using hl(1) by simp
    then have c: "0x10000 \<le> c" "c < 0x110000" "(c - 0x10000) div 1024 = hi"
      "(c - 0x10000) mod 1024 = lo"
      using hl(2) by (simp_all add: c_def)
    have "code_units c = [u, v]"
      using c hl by (simp add: code_units_def)
    moreover have "utf8Slice (utf8ToBytes vs) = vs"
      using "2.IH"(1) True us v w by simp
    ultimately show ?thesis
      using True v c by (simp add: us c_def [symmetric] hi_def [symmetric] lo_def [symmetric] slice_encode_cp)
  next
    case False
    with "2.prems" have t: "\<not> is_trail (unat u)" and w: "well_formed us"
      by simp_all
    have "code_units (unat u) = [u]"
      using unit_less [of u] by (simp add: code_units_def)
    moreover have "unat u < 0xD800 \<or> 0xDFFF < unat u"
      using False t by (auto simp add: is_lead_def is_trail_def)
    moreover have "unat u < 0x110000"
      using unit_less [of u] by simp
    ultimately show ?thesis
      using False t w "2.IH"(2) by (simp add: slice_encode_cp)
  qed
qed

declare utf8Slice.simps [simp del]

lemma codePoint_cases:
  assumes "codePoint xs = Some cp"
  obtains
    (one) b1 where "xs = [b1]" "unat b1 < 0x80" "cp = unat b1"
  | (two) b1 b2 where "xs = [b1, b2]" "continuation b2" "0x7F < cp"
      "cp = unat b1 mod 32 * 64 + unat b2 mod 64"
  | (three) b1 b2 b3 where "xs = [b1, b2, b3]" "continuation b2" "continuation b3" "0x7FF < cp"
      "cp < 0xD800 \<or> 0xDFFF < cp" "cp = unat b1 mod 16 * 4096 + unat b2 mod 64 * 64 + unat b3 mod 64"
  | (four) b1 b2 b3 b4 where "xs = [b1, b2, b3, b4]" "continuation b2" "continuation b3"
      "continuation b4" "0xFFFF < cp" "cp < 0x110000"
      "cp = unat b1 mod 16 * 262144 + unat b2 mod 64 * 4096 + unat b3 mod 64 * 64 + unat b4 mod 64"
  using assms
  by (cases xs rule: codePoint.cases) (auto simp add: Let_def split: if_splits)

lemma mod_bound2: "(a :: nat) mod 32 * 64 + b mod 64 < 2048"
proof -
  have "a mod 32 \<le> 31" "b mod 64 \<le> 63"
    by (simp_all add: Suc_leI less_Suc_eq_le [symmetric])
  then have "a mod 32 * 64 \<le> 31 * 64"
    by (intro mult_le_mono1)
  with \<open>b mod 64 \<le> 63\<close> show ?thesis
    by simp
qed

lemma mod_bound3: "(a :: nat) mod 16 * 4096 + b mod 64 * 64 + c mod 64 < 65536"
proof -
  have "a mod 16 \<le> 15" "b mod 64 \<le> 63" "c mod 64 \<le> 63"
    by (simp_all add: less_Suc_eq_le [symmetric])
  then have "a mod 16 * 4096 \<le> 15 * 4096" "b mod 64 * 64 \<le> 63 * 64"
    by simp_all
  with \<open>c mod 64 \<le> 63\<close> show ?thesis
    by simp
qed

lemma codePoint_scalar:
  assumes "codePoint xs = Some cp"
  shows "cp < 0x110000 \<and> (cp < 0xD800 \<or> 0xDFFF < cp)"
  using assms
proof (cases rule: codePoint_cases)
  case (one b1)
  then show ?thesis by simp
next
  case (two b1 b2)
  then show ?thesis using mod_bound2 [of "unat b1" "unat b2"] by simp
next
  case (three b1 b2 b3)
  then show ?thesis using mod_bound3 [of "unat b1" "unat b2" "unat b3"] by simp
next
  case (four b1 b2 b3 b4)
  then show ?thesis by simp
qed

lemma code_units_well_formed:
  assumes "cp < 0x110000" "cp < 0xD800 \<or> 0xDFFF < cp" "well_formed s"
  shows "well_formed (code_units cp @ s)"
proof (cases "0xFFFF < cp")
  case False
  then show ?thesis
    using assms by (auto simp add: code_units_def unat_unit_of_nat is_lead_def is_trail_def)
next
  case True
  define d where "d = cp - 0x10000"
  have d: "d < 1024 * 1024"
    using True assms(1) by (simp add: d_def)
  then have "d div 1024 < 1024"
    by (intro less_mult_imp_div_less) simp
  then have "unat (of_nat (0xD800 + d div 1024) :: 16 word) = 0xD800 + d div 1024"
    by (intro unat_unit_of_nat) simp
  moreover have "unat (of_nat (0xDC00 + d mod 1024) :: 16 word) = 0xDC00 + d mod 1024"
    by (intro unat_unit_of_nat) simp
  moreover have "d div 1024 \<le> 1023" "d mod 1024 \<le> 1023"
    using \<open>d div 1024 < 1024\<close> by simp_all
  ultimately show ?thesis
    using True assms(3)
    by (simp add: code_units_def d_def [symmetric] is_lead_def is_trail_def del: of_nat_add)
qed

lemma utf8Slice_well_formed: "well_formed (utf8Slice bs)"
proof (induction bs rule: utf8Slice.induct)
  case 1
  then show ?case by (simp add: utf8Slice.simps)
next
  case (2 b bs)
  define n where "n = bytesPerSequence b"
  define r where "r = (if n \<le> length (b # bs) then codePoint (take n (b # bs)) else None)"
  have step: "utf8Slice (b # bs) =
      (case r of None \<Rightarrow> 0xFFFD # utf8Slice bs
       | Some cp \<Rightarrow> code_units cp @ utf8Slice (drop n (b # bs)))"
    unfolding n_def r_def by (simp add: utf8Slice.simps Let_def)
  show ?case
  proof (cases r)
    case None
    moreover have "well_formed (utf8Slice bs)"
      using "2.IH"(1) [OF n_def] None unfolding r_def by simp
    ultimately show ?thesis
      by (simp add: step is_lead_def is_trail_def)
  next
    case (Some cp)
    have "well_formed (utf8Slice (drop n (b # bs)))"
      using "2.IH"(2) [OF n_def] Some unfolding r_def by simp
    moreover have "codePoint (take n (b # bs)) = Some cp"
      using Some by (simp add: r_def split: if_splits)
    ultimately show ?thesis
      unfolding step Some using codePoint_scalar code_units_well_formed
      by (simp del: take_Suc_Cons drop_Suc_Cons)
  qed
qed











section \<open>Properties of \<open>encrypt\<close> and \<open>decrypt\<close>\<close>

lemma length_getRandomValues: "length (getRandomValues random (Uint8Array n)) = n"
  by (simp add: getRandomValues_def Uint8Array_def)

lemma encrypt_text:
  assumes "length (utf8ToBytes key) = 32"
  shows "encrypt A random key payload =
    Inr (convertByteArrayToHex (getRandomValues random (Uint8Array 16)) @ js '':'' @
         Buffer_toString_hex
           (encrypt_bytes A (utf8ToBytes key) (getRandomValues random (Uint8Array 16))
              (utf8ToBytes payload)))"
  using assms
  by (simp add: encrypt_def createCipheriv_def length_getRandomValues encrypt_bytes_def Let_def
      case_prod_unfold)

lemma decrypt_text:
  "decrypt A key (convertByteArrayToHex iv @ js '':'' @ Buffer_toString_hex ct) =
     (if length iv \<noteq> 16 then Inl (InvalidIvLength (length iv))
      else if length (utf8ToBytes key) \<noteq> 32 then Inl (InvalidKeyLength (length (utf8ToBytes key)))
      else case decrypt_bytes A (utf8ToBytes key) iv ct of
             Inl e \<Rightarrow> Inl e
           | Inr bytes \<Rightarrow> Inr (utf8Slice bytes))"
  unfolding decrypt_def convertByteArrayToHex_eq split_hex_pair Let_def
  by (simp add: Buffer_from_hex_toString createDecipheriv_def decrypt_bytes_def Let_def
      case_prod_unfold split: sum.splits)

lemma replicate_numeral: "replicate (numeral k) x = x # replicate (pred_numeral k) x"
  by (simp add: numeral_eq_Suc)

lemmas crypto_eval =
  js_def is_lead_def is_trail_def encode_cp_def replacement_def
  hex_digit_def toString16.simps convertByteArrayToHex_def Buffer_toString_hex_def hex_value_def
  split_def xor_bytes_def createCipheriv_def createDecipheriv_def encrypt_chunks.simps cipher_update_def
  cipher_final_def decrypt_chunks.simps decipher_update_def unpad_def decipher_final_def
  getRandomValues_def Uint8Array_def encrypt_def decrypt_def xor_cipher_def counting_def
  continuation_def bytesPerSequence_def code_units_def utf8Slice.simps Let_def
  replicate_numeral

lemma xor_cipher_ok:
  assumes "length k = 32"
  shows "cipher_ok xor_cipher k"
proof -
  have "length (xor_bytes (take 16 k) (drop 16 k)) = 16"
    using assms by (simp add: length_xor_bytes)
  then show ?thesis
    by (simp add: cipher_ok_def xor_cipher_def length_xor_bytes xor_bytes_cancel)
qed

text \<open>
  Claim C1, as amended. \<open>encrypt\<close> draws an initialization vector of 16 bytes. For a key
  whose UTF-8 encoding is not 32 bytes long it fails with the cipher's invalid-key-length
  error; for a key of 32 bytes it returns \<open>hex(iv) + ':' + hex(ciphertext)\<close>, whatever
  the entropy. For a key of 32 bytes under which the block cipher is a permutation of
  the blocks, and a well-formed payload (no unpaired surrogate), \<open>decrypt\<close> with the same
  key returns the payload from that text.
\<close>

theorem encrypt_decrypt_round_trip:
  fixes A :: block_cipher and random :: "nat \<Rightarrow> byte" and key payload :: jsstring
  defines "iv \<equiv> getRandomValues random (Uint8Array 16)"
  defines "ciphertext \<equiv> encrypt_bytes A (utf8ToBytes key) iv (utf8ToBytes payload)"
  defines "text \<equiv> convertByteArrayToHex iv @ js '':'' @ Buffer_toString_hex ciphertext"
  shows "length iv = 16 \<and>
    (length (utf8ToBytes key) \<noteq> 32 \<longrightarrow>
       encrypt A random key payload = Inl (InvalidKeyLength (length (utf8ToBytes key)))) \<and>
    (length (utf8ToBytes key) = 32 \<longrightarrow> encrypt A random key payload = Inr text) \<and>
    (length (utf8ToBytes key) = 32 \<and> cipher_ok A (utf8ToBytes key) \<and> well_formed payload \<longrightarrow>
       decrypt A key text = Inr payload)"
proof -
  have l: "length iv = 16"
    unfolding iv_def by (rule length_getRandomValues)
  have "decrypt A key text = Inr payload"
    if "length (utf8ToBytes key) = 32" "cipher_ok A (utf8ToBytes key)" "well_formed payload"
  proof -
    have "decrypt_bytes A (utf8ToBytes key) iv ciphertext = Inr (utf8ToBytes payload)"
      unfolding ciphertext_def using that(2) l by (rule decrypt_encrypt_bytes)
    then show ?thesis
      unfolding text_def using that l by (simp add: decrypt_text utf8_round_trip)
  qed
  moreover have "encrypt A random key payload = Inr text" if "length (utf8ToBytes key) = 32"
    unfolding text_def ciphertext_def iv_def using that by (rule encrypt_text)
  moreover have "encrypt A random key payload = Inl (InvalidKeyLength (length (utf8ToBytes key)))"
    if "length (utf8ToBytes key) \<noteq> 32"
    using that by (simp add: encrypt_def createCipheriv_def)
  ultimately show ?thesis
    using l by blast
qed

theorem encrypt_decrypt_round_trip_witness:
  "encrypt xor_cipher counting (js ''0123456789abcdefghijklmnopqrstuv'') (js ''hello'')
     = Inr (js ''031425364758697a8b9cadbecfe0f102:3c281203770a3928d7deb6a5d4fbea19'') \<and>
   decrypt xor_cipher (js ''0123456789abcdefghijklmnopqrstuv'')
     (js ''031425364758697a8b9cadbecfe0f102:3c281203770a3928d7deb6a5d4fbea19'') = Inr (js ''hello'') \<and>
   encrypt xor_cipher counting (js ''short'') (js ''hello'') = Inl (InvalidKeyLength 5)"
proof -
  let ?key = "js ''0123456789abcdefghijklmnopqrstuv''"
  have k: "length (utf8ToBytes ?key) = 32" "length (utf8ToBytes (js ''short'')) = 5"
    by (simp_all add: js_def is_lead_def is_trail_def encode_cp_def)
  have c: "cipher_ok xor_cipher (utf8ToBytes ?key)"
    using k(1) by (rule xor_cipher_ok)
  have w: "well_formed (js ''hello'')"
    by (simp add: js_def is_lead_def is_trail_def)
  have e: "encrypt xor_cipher counting ?key (js ''hello'')
      = Inr (js ''031425364758697a8b9cadbecfe0f102:3c281203770a3928d7deb6a5d4fbea19'')"
    by (simp add: crypto_eval upt_rec)
  from encrypt_decrypt_round_trip [where A = xor_cipher and random = counting and key = ?key
      and payload = "js ''hello''"]
    encrypt_decrypt_round_trip [where A = xor_cipher and random = counting and key = "js ''short''"
      and payload = "js ''hello''"] k c w
  show ?thesis
    by (simp add: e)
qed

text \<open>
  Claim C1 as stated fails in two ways, whatever the block cipher and the entropy: with
  the key \<^verbatim>\<open>'secret'\<close> (6 bytes) \<open>encrypt\<close> returns no text but the invalid-key-length
  error; and \<open>decrypt\<close> never returns the payload that consists of the unpaired
  surrogate U+D800, since the string it returns is decoded from UTF-8.
\<close>

theorem encrypt_decrypt_counterexample:
  "(\<forall>A random. encrypt A random (js ''secret'') (js ''hello'') = Inl (InvalidKeyLength 6)) \<and>
   (\<forall>A key text. decrypt A key text \<noteq> Inr [0xD800])"
proof -
  have "length (utf8ToBytes (js ''secret'')) = 6"
    by (simp add: js_def is_lead_def is_trail_def encode_cp_def)
  then have "encrypt A random (js ''secret'') (js ''hello'') = Inl (InvalidKeyLength 6)" for A random
    by (simp add: encrypt_def createCipheriv_def)
  moreover have "decrypt A key c \<noteq> Inr [0xD800]" for A key c
  proof
    assume "decrypt A key c = Inr [0xD800]"
    then obtain bytes where "utf8Slice bytes = [0xD800]"
      by (auto simp add: decrypt_def Let_def case_prod_unfold split: sum.splits)
    moreover have "\<not> well_formed [0xD800]"
      by (simp add: is_lead_def)
    ultimately show False
      using utf8Slice_well_formed [of bytes] by simp
  qed
  ultimately show ?thesis
    by blast
qed






end
